theory Spec2Isabelle
  imports Main "HOL-Library.Word"
begin

section \<open>Python values, exceptions and builtins used by the disassembler\<close>

text \<open>
  A \<^verbatim>\<open>bytearray\<close> is a list of 8-bit words; reading an element gives a Python
  integer in 0..255 (\<open>unat\<close>). Sizes, cursors and opcode keys are never negative and
  are naturals; immediates, resolved destinations and list indices computed by
  subtraction are integers.
\<close>

type_synonym byte = "8 word"

text \<open>
  Every exception the decoder can raise. The two \<^verbatim>\<open>raise Exception(...)\<close> statements
  of \<^verbatim>\<open>disassemble.py\<close> carry the selector (or mode) and the opcode of their message.
\<close>

datatype error =
    IndexError
  | KeyError
  | TypeError
  | ValueError
  | UnboundLocalError
  | Exception_INVALID_OPCODE_EXTENSION nat nat
  | Exception_INVALID_ADDRESSING_MODE nat nat

text \<open>The dynamically typed \<^verbatim>\<open>immediate\<close> attribute: \<^verbatim>\<open>None\<close>, an integer or a string.\<close>

datatype pyval = PNone | PInt int | PStr string

definition bind_e :: "error + 'a \<Rightarrow> ('a \<Rightarrow> error + 'b) \<Rightarrow> error + 'b" where
  "bind_e r f = (case r of Inl e \<Rightarrow> Inl e | Inr x \<Rightarrow> f x)"

text \<open>\<^verbatim>\<open>xs[i]\<close>: a negative index counts from the end, an index out of range raises.\<close>

definition py_index :: "'a list \<Rightarrow> int \<Rightarrow> error + 'a" where
  "py_index xs i =
     (if 0 \<le> i \<and> i < int (length xs) then Inr (xs ! nat i)
      else if i < 0 \<and> - int (length xs) \<le> i then Inr (xs ! nat (int (length xs) + i))
      else Inl IndexError)"

text \<open>\<^verbatim>\<open>xs[a:b]\<close> for \<open>0 \<le> a \<le> b\<close>: a slice never raises, it is cut at the end.\<close>

definition slice :: "nat \<Rightarrow> nat \<Rightarrow> 'a list \<Rightarrow> 'a list" where
  "slice a b xs = take (b - a) (drop a xs)"

text \<open>\<^verbatim>\<open>int.from_bytes(bs, "little")\<close>, \<^verbatim>\<open>(bs, "big")\<close> and \<^verbatim>\<open>(bs, "little", signed=True)\<close>.\<close>

fun from_bytes_little :: "byte list \<Rightarrow> nat" where
  "from_bytes_little [] = 0"
| "from_bytes_little (b # bs) = unat b + 256 * from_bytes_little bs"

definition from_bytes_big :: "byte list \<Rightarrow> nat" where
  "from_bytes_big bs = foldl (\<lambda>acc b. acc * 256 + unat b) 0 bs"

definition from_bytes_little_signed :: "byte list \<Rightarrow> int" where
  "from_bytes_little_signed bs =
     (let v = int (from_bytes_little bs); n = length bs
      in if n = 0 then 0
         else if 2 ^ (8 * n - 1) \<le> v then v - 2 ^ (8 * n) else v)"

subsection \<open>Number formatting\<close>

definition hex_char :: "nat \<Rightarrow> char" where
  "hex_char d = ''0123456789ABCDEF'' ! d"

definition dec_char :: "nat \<Rightarrow> char" where
  "dec_char d = ''0123456789'' ! d"

fun hex_nat :: "nat \<Rightarrow> string" where
  "hex_nat n = (if n < 16 then [hex_char n] else hex_nat (n div 16) @ [hex_char (n mod 16)])"

fun dec_nat :: "nat \<Rightarrow> string" where
  "dec_nat n = (if n < 10 then [dec_char n] else dec_nat (n div 10) @ [dec_char (n mod 10)])"

declare hex_nat.simps [simp del]
declare dec_nat.simps [simp del]

definition zero_pad :: "nat \<Rightarrow> string \<Rightarrow> string" where
  "zero_pad w s = replicate (w - length s) (CHR ''0'') @ s"

text \<open>
  \<^verbatim>\<open>f"{i:0wX}"\<close>: upper-case hexadecimal, zero-padded to \<open>w\<close> characters; for a negative
  number the sign comes first and counts towards the width.
\<close>

definition format_0X :: "nat \<Rightarrow> int \<Rightarrow> string" where
  "format_0X w i =
     (if i < 0 then CHR ''-'' # zero_pad (w - 1) (hex_nat (nat (- i)))
      else zero_pad w (hex_nat (nat i)))"

text \<open>\<^verbatim>\<open>str(i)\<close> for an integer, and \<^verbatim>\<open>str\<close> of an attribute that may be \<^verbatim>\<open>None\<close>.\<close>

definition str_int :: "int \<Rightarrow> string" where
  "str_int i = (if i < 0 then CHR ''-'' # dec_nat (nat (- i)) else dec_nat (nat i))"

definition str_opt :: "string option \<Rightarrow> string" where
  "str_opt s = (case s of None \<Rightarrow> ''None'' | Some t \<Rightarrow> t)"

definition str_val :: "pyval \<Rightarrow> string" where
  "str_val v = (case v of PNone \<Rightarrow> ''None'' | PInt i \<Rightarrow> str_int i | PStr s \<Rightarrow> s)"

text \<open>
  A dictionary that keeps insertion order: assignment replaces the value of a present
  key in place and appends an absent one.
\<close>

fun dict_set :: "('k \<times> 'v) list \<Rightarrow> 'k \<Rightarrow> 'v \<Rightarrow> ('k \<times> 'v) list" where
  "dict_set [] k v = [(k, v)]"
| "dict_set ((k', v') # kvs) k v =
     (if k' = k then (k, v) # kvs else (k', v') # dict_set kvs k v)"


section \<open>Byte-field utilities (\<^verbatim>\<open>byte_utils\<close>)\<close>

text \<open>
  Modelled from the spec: the module \<^verbatim>\<open>byte_utils\<close> that \<^verbatim>\<open>disassemble.py\<close> imports
  is not among the sources. \<open>parse_modrm\<close> returns the 2-bit mode selector (bits 7-6),
  the 3-bit register/extension selector (bits 5-3) and the 3-bit operand selector
  (bits 2-0) of the addressing descriptor byte.
\<close>

definition parse_modrm :: "nat \<Rightarrow> nat \<times> nat \<times> nat" where
  "parse_modrm b = ((b div 64) mod 4, (b div 8) mod 8, b mod 8)"

text \<open>
  Modelled from the spec: \<open>parse_sib\<close> of the missing \<^verbatim>\<open>byte_utils\<close> returns the scale
  multiplier (2 raised to the field at bits 7-6), the index selector (bits 5-3) and the
  base selector (bits 2-0) of the scale-index-base byte.
\<close>

definition parse_sib :: "nat \<Rightarrow> nat \<times> nat \<times> nat" where
  "parse_sib b = (2 ^ ((b div 64) mod 4), (b div 8) mod 8, b mod 8)"

text \<open>
  Modelled from the spec: \<open>to_signed\<close> of the missing \<^verbatim>\<open>byte_utils\<close> maps an unsigned byte
  value of 128 or more to the value minus 256.
\<close>

definition to_signed :: "nat \<Rightarrow> int" where
  "to_signed b = (if 128 \<le> b then int b - 256 else int b)"


section \<open>Instruction metadata (\<^verbatim>\<open>instruction_data.py\<close>)\<close>

text \<open>
  The enumeration \<^verbatim>\<open>ENCODINGS\<close>, which \<^verbatim>\<open>disassemble.py\<close> refers to as \<^verbatim>\<open>Encodings\<close>.
  The constructors carry a prefix: \<open>O\<close> and \<open>I\<close> alone are taken in HOL.
\<close>

datatype Encodings =
  Enc_I | Enc_MI | Enc_MR | Enc_RM | Enc_M | Enc_O | Enc_OI | Enc_D | Enc_FD | Enc_TD | Enc_ZO

text \<open>
  Class \<^verbatim>\<open>InstructionInfo\<close>. The fields carry the prefix \<open>info_\<close> to keep them apart from
  the fields of the decoded token, which has a mnemonic and an encoding of its own.
\<close>

record InstructionInfo =
  info_opcode :: nat
  info_mnemonic :: "string option"
  info_has_modrm :: bool
  info_addressing_modes :: "nat list"
  info_encoding :: Encodings
  info_extension_map :: "(nat \<times> string) list option"
  info_opcode_plus :: bool
  info_prefix_map :: "(nat \<times> string) list option"
  info_imm_size :: nat

text \<open>The constructor with its defaults; keyword arguments are record updates.\<close>

definition InstructionInfo_init ::
  "nat \<Rightarrow> string option \<Rightarrow> bool \<Rightarrow> Encodings \<Rightarrow> InstructionInfo" where
  "InstructionInfo_init opc mn modrm enc =
     \<lparr> info_opcode = opc, info_mnemonic = mn, info_has_modrm = modrm,
       info_addressing_modes = [0, 1, 2, 3], info_encoding = enc,
       info_extension_map = None, info_opcode_plus = False, info_prefix_map = None,
       info_imm_size = 4 \<rparr>"

definition GLOBAL_REGISTER_NAMES :: "string list" where
  "GLOBAL_REGISTER_NAMES =
     [''eax'', ''ecx'', ''edx'', ''ebx'', ''esp'', ''ebp'', ''esi'', ''edi'']"

definition REGADD_OPCODES :: "nat list" where
  "REGADD_OPCODES = [0x48, 0x40, 0xB8, 0x58, 0x50]"

definition GLOBAL_INSTRUCTIONS_MAP_items :: "(nat \<times> InstructionInfo) list" where
  "GLOBAL_INSTRUCTIONS_MAP_items =
   [ (0x05, InstructionInfo_init 0x05 (Some ''add eax,'') False Enc_I),
     (0x01, InstructionInfo_init 0x01 (Some ''add'') True Enc_MR),
     (0x03, InstructionInfo_init 0x03 (Some ''add'') True Enc_RM),
     (0x25, InstructionInfo_init 0x25 (Some ''and eax,'') False Enc_I),
     (0x21, InstructionInfo_init 0x21 (Some ''and'') True Enc_MR),
     (0x23, InstructionInfo_init 0x23 (Some ''and'') True Enc_RM),
     (0xE8, InstructionInfo_init 0xE8 (Some ''call'') False Enc_D),
     (0x0FAE, (InstructionInfo_init 0x0FAE None True Enc_M)
         \<lparr> info_extension_map := Some [(7, ''clflush'')],
           info_addressing_modes := [0, 1, 2] \<rparr>),
     (0x3D, InstructionInfo_init 0x3D (Some ''cmp eax,'') False Enc_I),
     (0x39, InstructionInfo_init 0x39 (Some ''cmp'') True Enc_MR),
     (0x3B, InstructionInfo_init 0x3B (Some ''cmp'') True Enc_RM),
     (0x48, (InstructionInfo_init 0x48 (Some ''dec'') False Enc_O)
         \<lparr> info_opcode_plus := True \<rparr>),
     (0x40, (InstructionInfo_init 0x40 (Some ''inc'') False Enc_O)
         \<lparr> info_opcode_plus := True \<rparr>),
     (0xEB, (InstructionInfo_init 0xEB (Some ''jmp'') False Enc_D) \<lparr> info_imm_size := 1 \<rparr>),
     (0xE9, InstructionInfo_init 0xE9 (Some ''jmp'') False Enc_D),
     (0x74, (InstructionInfo_init 0x74 (Some ''jz'') False Enc_D) \<lparr> info_imm_size := 1 \<rparr>),
     (0x75, (InstructionInfo_init 0x75 (Some ''jnz'') False Enc_D) \<lparr> info_imm_size := 1 \<rparr>),
     (0x0F85, InstructionInfo_init 0x0F85 (Some ''jnz'') False Enc_D),
     (0x0F84, InstructionInfo_init 0x0F84 (Some ''jz'') False Enc_D),
     (0x8D, (InstructionInfo_init 0x8D (Some ''lea'') True Enc_RM)
         \<lparr> info_addressing_modes := [0, 1, 2] \<rparr>),
     (0xA1, InstructionInfo_init 0xA1 (Some ''mov'') False Enc_FD),
     (0xA3, InstructionInfo_init 0xA3 (Some ''mov'') False Enc_TD),
     (0xB8, InstructionInfo_init 0xB8 (Some ''mov'') False Enc_OI),
     (0xC7, (InstructionInfo_init 0xC7 None True Enc_MI)
         \<lparr> info_extension_map := Some [(0, ''mov'')] \<rparr>),
     (0x89, InstructionInfo_init 0x89 (Some ''mov'') True Enc_MR),
     (0x8B, InstructionInfo_init 0x8B (Some ''mov'') True Enc_RM),
     (0xA5, InstructionInfo_init 0xA5 (Some ''movsd'') False Enc_ZO),
     (0x90, InstructionInfo_init 0x90 (Some ''nop'') False Enc_ZO),
     (0x0D, InstructionInfo_init 0x0D (Some ''or eax,'') False Enc_I),
     (0x09, InstructionInfo_init 0x09 (Some ''or'') True Enc_MR),
     (0x0B, InstructionInfo_init 0x0B (Some ''or'') True Enc_RM),
     (0x8F, (InstructionInfo_init 0x8F None True Enc_M)
         \<lparr> info_extension_map := Some [(0, ''pop'')] \<rparr>),
     (0x58, InstructionInfo_init 0x58 (Some ''pop'') False Enc_O),
     (0x50, InstructionInfo_init 0x50 (Some ''push'') False Enc_O),
     (0x68, InstructionInfo_init 0x68 (Some ''push'') False Enc_I),
     (0x6A, (InstructionInfo_init 0x6A (Some ''push'') False Enc_I) \<lparr> info_imm_size := 1 \<rparr>),
     (0xF2A7, InstructionInfo_init 0xF2A7 (Some ''repne cmpsd'') False Enc_ZO),
     (0xCB, InstructionInfo_init 0xCB (Some ''retf'') False Enc_ZO),
     (0xCA, (InstructionInfo_init 0xCA (Some ''retf'') False Enc_I) \<lparr> info_imm_size := 2 \<rparr>),
     (0xC3, InstructionInfo_init 0xC3 (Some ''retn'') False Enc_ZO),
     (0xC2, (InstructionInfo_init 0xC2 (Some ''retn'') False Enc_I) \<lparr> info_imm_size := 2 \<rparr>),
     (0x2D, InstructionInfo_init 0x2D (Some ''sub'') False Enc_I),
     (0x29, InstructionInfo_init 0x29 (Some ''sub'') True Enc_MR),
     (0x2B, InstructionInfo_init 0x2B (Some ''sub'') True Enc_RM),
     (0xA9, InstructionInfo_init 0xA9 (Some ''test eax,'') False Enc_I),
     (0x85, InstructionInfo_init 0x85 (Some ''test'') True Enc_MR),
     (0x35, InstructionInfo_init 0x35 (Some ''xor eax,'') False Enc_I),
     (0x31, InstructionInfo_init 0x31 (Some ''xor'') True Enc_MR),
     (0x33, InstructionInfo_init 0x33 (Some ''xor'') True Enc_RM),
     (0xFF, (InstructionInfo_init 0xFF None True Enc_M)
         \<lparr> info_extension_map :=
             Some [(0, ''inc''), (1, ''dec''), (2, ''call''), (4, ''jmp''), (6, ''push'')] \<rparr>),
     (0x81, (InstructionInfo_init 0x81 None True Enc_MI)
         \<lparr> info_extension_map :=
             Some [(0, ''add''), (1, ''or''), (4, ''and''), (5, ''sub''), (6, ''xor''),
                   (7, ''cmp'')] \<rparr>),
     (0xF7, (InstructionInfo_init 0xF7 None True Enc_M)
         \<lparr> info_extension_map := Some [(0, ''test''), (2, ''not''), (7, ''idiv'')] \<rparr>) ]"

text \<open>Lookup by key. No key occurs twice in the literal (lemma \<open>items_distinct\<close> below).\<close>

definition GLOBAL_INSTRUCTIONS_MAP :: "nat \<Rightarrow> InstructionInfo option" where
  "GLOBAL_INSTRUCTIONS_MAP k = map_of GLOBAL_INSTRUCTIONS_MAP_items k"


section \<open>The decoded instruction token (\<^verbatim>\<open>disassemble.py\<close>)\<close>

text \<open>
  Class \<^verbatim>\<open>Instruction\<close>. Every attribute defaults to \<^verbatim>\<open>None\<close> and \<^verbatim>\<open>is_db\<close> to
  \<^verbatim>\<open>False\<close>. \<^verbatim>\<open>scale\<close>, \<^verbatim>\<open>index\<close> and \<^verbatim>\<open>base\<close> are never assigned by the decoder.
\<close>

record Instruction =
  mnemonic :: "string option"
  encoding :: "Encodings option"
  immediate :: pyval
  reg :: "string option"
  rm :: "string option"
  scale :: "nat option"
  index :: "nat option"
  base :: "nat option"
  is_db :: bool

definition Instruction_init :: Instruction where
  "Instruction_init =
     \<lparr> mnemonic = None, encoding = None, immediate = PNone, reg = None, rm = None,
       scale = None, index = None, base = None, is_db = False \<rparr>"

text \<open>\<^verbatim>\<open>Instruction(immediate=b, is_db=True)\<close>, the unrecognized-byte placeholder.\<close>

definition db_token :: "byte \<Rightarrow> Instruction" where
  "db_token b = Instruction_init \<lparr> immediate := PInt (int (unat b)), is_db := True \<rparr>"

text \<open>
  \<^verbatim>\<open>Instruction.__str__\<close>. The format code \<^verbatim>\<open>02X\<close> raises on a string or \<^verbatim>\<open>None\<close>;
  the last branch returns the mnemonic itself, and \<^verbatim>\<open>__str__\<close> returning \<^verbatim>\<open>None\<close> is a
  type error.
\<close>

definition Instruction_str :: "Instruction \<Rightarrow> error + string" where
  "Instruction_str self =
     (if is_db self then
        (case immediate self of
           PInt i \<Rightarrow> Inr (''db 0x'' @ format_0X 2 i)
         | PStr s \<Rightarrow> Inl ValueError
         | PNone \<Rightarrow> Inl TypeError)
      else if encoding self = Some Enc_M then
        Inr (str_opt (mnemonic self) @ '' '' @ str_opt (rm self))
      else if encoding self = Some Enc_MI then
        Inr (str_opt (mnemonic self) @ '' '' @ str_opt (rm self) @ '', ''
             @ str_val (immediate self))
      else if encoding self = Some Enc_MR then
        Inr (str_opt (mnemonic self) @ '' '' @ str_opt (rm self) @ '', '' @ str_opt (reg self))
      else if encoding self = Some Enc_RM then
        Inr (str_opt (mnemonic self) @ '' '' @ str_opt (reg self) @ '', '' @ str_opt (rm self))
      else if encoding self = Some Enc_I then
        Inr (str_opt (mnemonic self) @ '' '' @ str_val (immediate self))
      else if encoding self = Some Enc_O then
        Inr (str_opt (mnemonic self) @ '' '' @ str_opt (reg self))
      else if encoding self = Some Enc_OI then
        Inr (str_opt (mnemonic self) @ '' '' @ str_opt (reg self) @ '', ''
             @ str_val (immediate self))
      else if encoding self = Some Enc_FD then
        Inr (str_opt (mnemonic self) @ '' '' @ str_opt (reg self) @ '', ''
             @ str_val (immediate self))
      else if encoding self = Some Enc_TD then
        Inr (str_opt (mnemonic self) @ '' '' @ str_val (immediate self) @ '', ''
             @ str_opt (reg self))
      else if encoding self = Some Enc_D then
        Inr (str_opt (mnemonic self) @ '' '' @ str_val (immediate self))
      else (case mnemonic self of Some m \<Rightarrow> Inr m | None \<Rightarrow> Inl TypeError))"


section \<open>Addressing-byte decode\<close>

text \<open>
  \<^verbatim>\<open>modrm_get_mnemonic\<close>. The test \<^verbatim>\<open>if instruction_info.extension_map\<close> is Python
  truthiness: \<^verbatim>\<open>None\<close> and the empty dictionary both count as absent.
\<close>

definition modrm_get_mnemonic :: "nat \<Rightarrow> InstructionInfo \<Rightarrow> error + string option" where
  "modrm_get_mnemonic reg_f instruction_info =
     (case info_extension_map instruction_info of
        None \<Rightarrow> Inr (info_mnemonic instruction_info)
      | Some m \<Rightarrow>
          if m = [] then Inr (info_mnemonic instruction_info)
          else (case map_of m reg_f of
                  Some s \<Rightarrow> Inr (Some s)
                | None \<Rightarrow>
                    Inl (Exception_INVALID_OPCODE_EXTENSION reg_f
                           (info_opcode instruction_info))))"

definition modrm_get_addressing_mode :: "nat \<Rightarrow> InstructionInfo \<Rightarrow> error + nat" where
  "modrm_get_addressing_mode mod_f instruction_info =
     (if mod_f \<in> set (info_addressing_modes instruction_info) then Inr mod_f
      else Inl (Exception_INVALID_ADDRESSING_MODE mod_f (info_opcode instruction_info)))"

text \<open>\<^verbatim>\<open>GLOBAL_REGISTER_NAMES[i]\<close> and \<^verbatim>\<open>data[i]\<close> read as an integer.\<close>

definition register_name :: "int \<Rightarrow> error + string" where
  "register_name i = py_index GLOBAL_REGISTER_NAMES i"

definition byte_at :: "byte list \<Rightarrow> nat \<Rightarrow> error + nat" where
  "byte_at data i = bind_e (py_index data (int i)) (\<lambda>b. Inr (unat b))"

text \<open>
  The scale-index-base operand text up to the displacement, after the tag \<open>tag\<close>
  (\<^verbatim>\<open>"[ dword "\<close> or \<^verbatim>\<open>"[ byte "\<close>): the base register alone when the index selector is 4,
  else index times scale plus base.
\<close>

definition sib_text :: "string \<Rightarrow> nat \<times> nat \<times> nat \<Rightarrow> error + string" where
  "sib_text tag sib =
     (case sib of (sib_scale, sib_index, sib_base) \<Rightarrow>
        if sib_index = 4 then
          bind_e (register_name (int sib_base)) (\<lambda>b. Inr (tag @ b))
        else
          bind_e (register_name (int sib_index)) (\<lambda>i.
          bind_e (register_name (int sib_base)) (\<lambda>b.
            Inr (tag @ i @ ''*'' @ str_int (int sib_scale) @ '' + '' @ b))))"

text \<open>
  The branch \<^verbatim>\<open>elif mod == 2\<close> of \<^verbatim>\<open>modrm_disassemble\<close>: the operand text and the bytes
  added to the instruction size.
\<close>

definition modrm_mod2 :: "byte list \<Rightarrow> nat \<Rightarrow> error + (string \<times> nat)" where
  "modrm_mod2 data rm_f =
     (if rm_f = 4 then
        (let displacement = from_bytes_little (slice 2 6 data) in
         bind_e (byte_at data 1) (\<lambda>b1.
         bind_e (sib_text ''[ dword '' (parse_sib b1)) (\<lambda>t.
           Inr ((if displacement \<noteq> 0 then t @ '' + 0x'' @ format_0X 8 (int displacement)
                 else t) @ '' ]'', 5))))
      else
        (let displacement = from_bytes_little (slice 1 5 data) in
         bind_e (register_name (int rm_f)) (\<lambda>r.
           Inr ((if displacement \<noteq> 0
                 then ''[ dword '' @ r @ '' + 0x'' @ format_0X 8 (int displacement)
                 else ''[ dword '' @ r) @ '' ]'', 4))))"

text \<open>The branch \<^verbatim>\<open>elif mod == 1\<close>: the displacement byte is read by index.\<close>

definition disp8_text :: "int \<Rightarrow> string" where
  "disp8_text displacement =
     (if displacement \<noteq> 0 then
        '' '' @ (if 0 < displacement then ''+'' else ''-'') @ '' 0x''
        @ format_0X 2 (abs displacement)
      else [])"

definition modrm_mod1 :: "byte list \<Rightarrow> nat \<Rightarrow> error + (string \<times> nat)" where
  "modrm_mod1 data rm_f =
     (if rm_f = 4 then
        bind_e (byte_at data 2) (\<lambda>b2.
        (let displacement = to_signed b2 in
         bind_e (byte_at data 1) (\<lambda>b1.
         bind_e (sib_text ''[ byte '' (parse_sib b1)) (\<lambda>t.
           Inr (t @ disp8_text displacement @ '' ]'', 2)))))
      else
        bind_e (byte_at data 1) (\<lambda>b1.
        (let displacement = to_signed b1 in
         bind_e (register_name (int rm_f)) (\<lambda>r.
           Inr (''[ byte '' @ r @ disp8_text displacement @ '' ]'', 1)))))"

text \<open>The final \<^verbatim>\<open>else\<close> branch (mode 0 and its special cases).\<close>

definition modrm_mod0 :: "byte list \<Rightarrow> nat \<Rightarrow> error + (string \<times> nat)" where
  "modrm_mod0 data rm_f =
     (if rm_f = 5 then
        (let displacement = from_bytes_little (slice 1 5 data) in
         Inr (''[ 0x'' @ format_0X 8 (int displacement) @ '' ]'', 4))
      else if rm_f = 4 then
        bind_e (byte_at data 1) (\<lambda>b1.
          (case parse_sib b1 of (sib_scale, sib_index, sib_base) \<Rightarrow>
             if sib_index = 4 then
               bind_e (register_name (int sib_base)) (\<lambda>b. Inr (''[ '' @ b @ '' ]'', 1))
             else if sib_base = 5 then
               bind_e (register_name (int sib_index)) (\<lambda>i.
               (let t = ''[ '' @ i @ ''*'' @ str_int (int sib_scale);
                    displacement = from_bytes_little (slice 2 6 data) in
                Inr ((if displacement \<noteq> 0 then t @ '' + 0x'' @ format_0X 8 (int displacement)
                      else t) @ '' ]'', 5)))
             else
               bind_e (register_name (int sib_index)) (\<lambda>i.
               bind_e (register_name (int sib_base)) (\<lambda>b.
                 Inr (''[ '' @ i @ ''*'' @ str_int (int sib_scale) @ '' + '' @ b @ '' ]'',
                      1)))))
      else
        bind_e (register_name (int rm_f)) (\<lambda>r. Inr (''[ '' @ r @ '' ]'', 0)))"

text \<open>The addressing operand for an accepted mode: the \<^verbatim>\<open>if\<close>/\<^verbatim>\<open>elif\<close> chain on \<^verbatim>\<open>mod\<close>.\<close>

definition modrm_operand :: "byte list \<Rightarrow> nat \<Rightarrow> nat \<Rightarrow> error + (string \<times> nat)" where
  "modrm_operand data mod_f rm_f =
     (if mod_f = 3 then bind_e (register_name (int rm_f)) (\<lambda>r. Inr (r, 0))
      else if mod_f = 2 then modrm_mod2 data rm_f
      else if mod_f = 1 then modrm_mod1 data rm_f
      else modrm_mod0 data rm_f)"

text \<open>
  \<^verbatim>\<open>modrm_disassemble\<close>. \<open>data\<close> starts at the addressing descriptor byte. The immediate
  of an MI instruction is sliced from \<^verbatim>\<open>instruction_size - 1\<close>, whatever the opcode size.
\<close>

definition modrm_disassemble ::
  "byte list \<Rightarrow> nat \<Rightarrow> InstructionInfo \<Rightarrow> error + (Instruction \<times> nat)" where
  "modrm_disassemble data opcode_size instruction_info =
     bind_e (byte_at data 0) (\<lambda>b0.
       (case parse_modrm b0 of (mod_f, reg_f, rm_f) \<Rightarrow>
          bind_e (modrm_get_mnemonic reg_f instruction_info) (\<lambda>mn.
          bind_e (register_name (int reg_f)) (\<lambda>rg.
          bind_e (modrm_get_addressing_mode mod_f instruction_info) (\<lambda>md.
          bind_e (modrm_operand data md rm_f) (\<lambda>(rm_text, extra).
            (let instruction = Instruction_init
                   \<lparr> mnemonic := mn, encoding := Some (info_encoding instruction_info),
                     reg := Some rg, rm := Some rm_text \<rparr>;
                 instruction_size = opcode_size + 1 + extra
             in if info_encoding instruction_info = Enc_MI then
                  (let imm = from_bytes_little
                         (slice (instruction_size - 1)
                            (instruction_size - 1 + info_imm_size instruction_info) data)
                   in Inr (instruction
                             \<lparr> immediate :=
                                 (if info_imm_size instruction_info = 4
                                  then PStr (''0x'' @ format_0X 8 (int imm))
                                  else PInt (int imm)) \<rparr>,
                           instruction_size + info_imm_size instruction_info))
                else Inr (instruction, instruction_size))))))))"


section \<open>Decode without an addressing byte\<close>

text \<open>
  \<^verbatim>\<open>no_modrm_no_regadd_disassemble\<close>. \<open>data\<close> starts after the opcode. Nothing here
  raises. The \<^verbatim>\<open>else\<close> branch commented "encoding is D" is taken by every encoding
  other than ZO and I.
\<close>

definition no_modrm_no_regadd_disassemble ::
  "byte list \<Rightarrow> nat \<Rightarrow> InstructionInfo \<Rightarrow> int \<Rightarrow> Instruction \<times> nat" where
  "no_modrm_no_regadd_disassemble data opcode_size instruction_info offset =
     (let instruction = Instruction_init
            \<lparr> mnemonic := info_mnemonic instruction_info,
              encoding := Some (info_encoding instruction_info) \<rparr>
      in if info_encoding instruction_info = Enc_ZO then (instruction, opcode_size)
         else
           (let instruction =
                  (if info_encoding instruction_info = Enc_TD
                      \<or> info_encoding instruction_info = Enc_FD
                   then instruction \<lparr> reg := Some ''eax'' \<rparr> else instruction);
                instruction_size = opcode_size + info_imm_size instruction_info;
                imm_bytes = take (info_imm_size instruction_info) data
            in if info_encoding instruction_info = Enc_I then
                 (if info_imm_size instruction_info = 4 then
                    (instruction
                       \<lparr> immediate :=
                           PStr (''0x'' @ format_0X 8 (int (from_bytes_little imm_bytes))) \<rparr>,
                     instruction_size)
                  else if info_imm_size instruction_info = 2 then
                    (instruction
                       \<lparr> immediate :=
                           PStr (''0x'' @ format_0X 4 (int (from_bytes_little imm_bytes))) \<rparr>,
                     instruction_size)
                  else
                    (instruction
                       \<lparr> immediate := PStr (str_int (from_bytes_little_signed imm_bytes)) \<rparr>,
                     instruction_size))
               else
                 (instruction
                    \<lparr> immediate :=
                        PInt (from_bytes_little_signed imm_bytes
                              + (offset + int instruction_size)) \<rparr>,
                  instruction_size)))"


section \<open>Register-embedded decode\<close>

text \<open>
  \<^verbatim>\<open>regadd_check_opcode\<close>: the first base opcode within 8 below the byte. The table
  lookup \<^verbatim>\<open>GLOBAL_INSTRUCTIONS_MAP[regadd_opcode]\<close> raises on a missing key.
\<close>

fun regadd_scan :: "nat list \<Rightarrow> nat \<Rightarrow> error + InstructionInfo option" where
  "regadd_scan [] opc = Inr None"
| "regadd_scan (regadd_opcode # rest) opc =
     (if int opc - int regadd_opcode \<ge> 0 \<and> int opc - int regadd_opcode < 8 then
        (case GLOBAL_INSTRUCTIONS_MAP regadd_opcode of
           None \<Rightarrow> Inl KeyError
         | Some info \<Rightarrow> Inr (Some info))
      else regadd_scan rest opc)"

definition regadd_check_opcode :: "nat \<Rightarrow> error + InstructionInfo option" where
  "regadd_check_opcode opc = regadd_scan REGADD_OPCODES opc"

text \<open>\<^verbatim>\<open>regadd_disassemble\<close>. \<open>data\<close> starts at the opcode byte.\<close>

definition regadd_disassemble ::
  "byte list \<Rightarrow> InstructionInfo \<Rightarrow> error + (Instruction \<times> nat)" where
  "regadd_disassemble data instruction_info =
     bind_e (byte_at data 0) (\<lambda>b0.
     bind_e (register_name (int b0 - int (info_opcode instruction_info))) (\<lambda>rg.
       (let instruction = Instruction_init
              \<lparr> mnemonic := info_mnemonic instruction_info,
                encoding := Some (info_encoding instruction_info), reg := Some rg \<rparr>
        in if info_encoding instruction_info = Enc_OI then
             (let instruction_size = 1 + info_imm_size instruction_info;
                  imm = from_bytes_little (slice 1 instruction_size data)
              in Inr (instruction \<lparr> immediate := PStr (''0x'' @ format_0X 8 (int imm)) \<rparr>,
                      instruction_size))
           else Inr (instruction, 1))))"


section \<open>Top-level dispatch\<close>

text \<open>
  The body of the \<^verbatim>\<open>try\<close> block of \<^verbatim>\<open>disassemble\<close>. \<open>opcode_size\<close> is \<open>None\<close> when
  the record came from \<^verbatim>\<open>regadd_check_opcode\<close>: that path never assigns the variable,
  and reading it raises.
\<close>

definition decode_body ::
  "byte list \<Rightarrow> int \<Rightarrow> nat option \<Rightarrow> InstructionInfo \<Rightarrow> error + (Instruction \<times> nat)" where
  "decode_body data offset opcode_size instruction_info =
     (if info_has_modrm instruction_info then
        (case opcode_size of
           None \<Rightarrow> Inl UnboundLocalError
         | Some sz \<Rightarrow> modrm_disassemble (drop sz data) sz instruction_info)
      else if info_encoding instruction_info = Enc_O
              \<or> info_encoding instruction_info = Enc_OI then
        regadd_disassemble data instruction_info
      else
        (case opcode_size of
           None \<Rightarrow> Inl UnboundLocalError
         | Some sz \<Rightarrow>
             Inr (no_modrm_no_regadd_disassemble (drop sz data) sz instruction_info offset)))"

text \<open>
  \<^verbatim>\<open>try: ... except Exception\<close>: every exception of the body becomes the placeholder
  for \<^verbatim>\<open>data[0]\<close> with size 1. \<open>b0\<close> is \<^verbatim>\<open>data[0]\<close>, read before the \<^verbatim>\<open>try\<close>.
\<close>

definition try_decode ::
  "byte list \<Rightarrow> byte \<Rightarrow> int \<Rightarrow> nat option \<Rightarrow> InstructionInfo \<Rightarrow> Instruction \<times> nat" where
  "try_decode data b0 offset opcode_size instruction_info =
     (case decode_body data offset opcode_size instruction_info of
        Inl e \<Rightarrow> (db_token b0, 1)
      | Inr r \<Rightarrow> r)"

text \<open>
  The opcode lookup at the head of \<^verbatim>\<open>disassemble\<close>, for the first byte \<open>b0\<close> of
  \<open>data\<close>: a one-byte key, else the first two bytes read big-endian as a key, else the
  register-embedded scan. The result is the record with the value of \<^verbatim>\<open>opcode_size\<close>
  (\<open>None\<close>: never assigned), or \<open>None\<close> for an unknown byte.
\<close>

definition lookup_record ::
  "byte list \<Rightarrow> byte \<Rightarrow> error + (nat option \<times> InstructionInfo) option" where
  "lookup_record data b0 =
     (case GLOBAL_INSTRUCTIONS_MAP (unat b0) of
        Some info \<Rightarrow> Inr (Some (Some 1, info))
      | None \<Rightarrow>
          (case GLOBAL_INSTRUCTIONS_MAP (from_bytes_big (take 2 data)) of
             Some info \<Rightarrow> Inr (Some (Some 2, info))
           | None \<Rightarrow>
               (case regadd_check_opcode (unat b0) of
                  Inl e \<Rightarrow> Inl e
                | Inr None \<Rightarrow> Inr None
                | Inr (Some info) \<Rightarrow> Inr (Some (None, info)))))"

text \<open>
  \<^verbatim>\<open>disassemble\<close>. The read of \<^verbatim>\<open>data[0]\<close> and the opcode lookup stand before the
  \<^verbatim>\<open>try\<close>: what they raise reaches the caller.
\<close>

definition disassemble :: "byte list \<Rightarrow> int \<Rightarrow> error + (Instruction \<times> nat)" where
  "disassemble data offset =
     (case py_index data 0 of
        Inl e \<Rightarrow> Inl e
      | Inr b0 \<Rightarrow>
          (case lookup_record data b0 of
             Inl e \<Rightarrow> Inl e
           | Inr None \<Rightarrow> Inr (db_token b0, 1)
           | Inr (Some (opcode_size, instruction_info)) \<Rightarrow>
               Inr (try_decode data b0 offset opcode_size instruction_info)))"


section \<open>Linear sweep\<close>

text \<open>
  The label step of the loop body: for a token with encoding D the immediate is
  formatted with \<^verbatim>\<open>08X\<close> (which raises on anything but an integer), the label is
  stored under the numeric destination and replaces the immediate.
\<close>

definition label_step ::
  "Instruction \<Rightarrow> (int \<times> string) list \<Rightarrow> error + (Instruction \<times> (int \<times> string) list)" where
  "label_step instruction labels =
     (if encoding instruction = Some Enc_D then
        (case immediate instruction of
           PInt i \<Rightarrow>
             (let dest_addr_str = format_0X 8 i;
                  dest_label = ''offset_'' @ dest_addr_str @ ''h''
              in Inr (instruction \<lparr> immediate := PStr dest_label \<rparr>,
                      dict_set labels i dest_label))
         | PStr s \<Rightarrow> Inl ValueError
         | PNone \<Rightarrow> Inl TypeError)
      else Inr (instruction, labels))"

text \<open>
  The \<^verbatim>\<open>while\<close> loop of \<^verbatim>\<open>linnear_sweep\<close> over its three variables. \<open>None\<close> is
  a loop that never ends, \<open>Some (Inl e)\<close> an exception that leaves the function; the
  final state keeps the cursor next to the two dictionaries.
\<close>

partial_function (option) sweep_loop ::
  "byte list \<Rightarrow> nat \<Rightarrow> (nat \<times> Instruction \<times> byte list) list \<Rightarrow> (int \<times> string) list
   \<Rightarrow> (error + nat \<times> (nat \<times> Instruction \<times> byte list) list \<times> (int \<times> string) list) option"
where
  "sweep_loop data counter output_list labels =
     (if counter < length data then
        (case disassemble (drop counter data) (int counter) of
           Inl e \<Rightarrow> Some (Inl e)
         | Inr (instruction, instruction_size) \<Rightarrow>
             (case label_step instruction labels of
                Inl e \<Rightarrow> Some (Inl e)
              | Inr (instruction', labels') \<Rightarrow>
                  sweep_loop data (counter + instruction_size)
                    (dict_set output_list counter
                       (instruction', slice counter (counter + instruction_size) data))
                    labels'))
      else Some (Inr (counter, output_list, labels)))"

declare sweep_loop.simps [code]

text \<open>
  \<^verbatim>\<open>linnear_sweep\<close>, applied to the buffer that \<^verbatim>\<open>get_file\<close> (of the missing
  \<^verbatim>\<open>byte_utils\<close>) returns for the file name.
\<close>

definition linnear_sweep ::
  "byte list
   \<Rightarrow> (error + (nat \<times> Instruction \<times> byte list) list \<times> (int \<times> string) list) option" where
  "linnear_sweep data =
     (case sweep_loop data 0 [] [] of
        None \<Rightarrow> None
      | Some (Inl e) \<Rightarrow> Some (Inl e)
      | Some (Inr (counter, output_list, labels)) \<Rightarrow> Some (Inr (output_list, labels)))"

text \<open>
  The consumed sizes of the decode steps of the loop, in order: the value of
  \<^verbatim>\<open>instruction_size\<close> in each iteration from cursor \<open>counter\<close> on.
\<close>

partial_function (option) sweep_sizes :: "byte list \<Rightarrow> nat \<Rightarrow> nat list option" where
  "sweep_sizes data counter =
     (if counter < length data then
        (case disassemble (drop counter data) (int counter) of
           Inl e \<Rightarrow> Some []
         | Inr (instruction, instruction_size) \<Rightarrow>
             Option.bind (sweep_sizes data (counter + instruction_size))
               (\<lambda>ns. Some (instruction_size # ns)))
      else Some [])"

declare sweep_sizes.simps [code]

text \<open>The starting offsets that go with a list of consumed sizes, from \<open>counter\<close> on.\<close>

fun step_offsets :: "nat \<Rightarrow> nat list \<Rightarrow> nat list" where
  "step_offsets counter [] = []"
| "step_offsets counter (n # ns) = counter # step_offsets (counter + n) ns"


section \<open>Reading rendered numbers back\<close>

definition is_upper_hex :: "string \<Rightarrow> bool" where
  "is_upper_hex s = list_all (\<lambda>c. c \<in> set ''0123456789ABCDEF'') s"

definition hex_digit_value :: "char \<Rightarrow> nat" where
  "hex_digit_value c = length (takeWhile (\<lambda>d. d \<noteq> c) ''0123456789ABCDEF'')"

definition hex_value :: "string \<Rightarrow> nat" where
  "hex_value s = foldl (\<lambda>acc c. acc * 16 + hex_digit_value c) 0 s"

text \<open>\<open>s\<close> is exactly \<open>w\<close> upper-case hexadecimal digits that spell \<open>n\<close>.\<close>

definition hex_digits_of :: "nat \<Rightarrow> nat \<Rightarrow> string \<Rightarrow> bool" where
  "hex_digits_of w n s = (length s = w \<and> is_upper_hex s \<and> hex_value s = n)"


definition is_dec_digits :: "string \<Rightarrow> bool" where
  "is_dec_digits s = (s \<noteq> [] \<and> list_all (\<lambda>c. c \<in> set ''0123456789'') s)"

definition dec_digit_value :: "char \<Rightarrow> nat" where
  "dec_digit_value c = length (takeWhile (\<lambda>d. d \<noteq> c) ''0123456789'')"

definition dec_value :: "string \<Rightarrow> nat" where
  "dec_value s = foldl (\<lambda>acc c. acc * 10 + dec_digit_value c) 0 s"

text \<open>
  \<open>s\<close> is the plain signed decimal numeral of \<open>i\<close>: decimal digits that spell
  \<open>|i|\<close>, after a minus sign when \<open>i\<close> is negative.
\<close>

definition decimal_of :: "int \<Rightarrow> string \<Rightarrow> bool" where
  "decimal_of i s =
     (if i < 0 then s \<noteq> [] \<and> hd s = CHR ''-'' \<and> is_dec_digits (tl s)
                    \<and> int (dec_value (tl s)) = - i
      else is_dec_digits s \<and> int (dec_value s) = i)"


section \<open>Labels in the result of a sweep\<close>

text \<open>The label text that the loop body builds for a destination.\<close>

definition label_text :: "int \<Rightarrow> string" where
  "label_text dest = ''offset_'' @ format_0X 8 dest @ ''h''"

text \<open>
  An entry of the sweep output is labelled when the decode at its offset stored a
  destination, the entry's token carries the label of that destination, and the label
  mapping maps the destination to the label.
\<close>

definition labelled ::
  "byte list \<Rightarrow> (int \<times> string) list \<Rightarrow> nat \<times> Instruction \<times> byte list \<Rightarrow> bool" where
  "labelled data labels entry =
     (case entry of (o', tok', raw) \<Rightarrow>
        (case disassemble (drop o' data) (int o') of
           Inl e \<Rightarrow> False
         | Inr (tok, s) \<Rightarrow>
             (case immediate tok of
                PInt dest \<Rightarrow>
                  immediate tok' = PStr (label_text dest)
                  \<and> map_of labels dest = Some (label_text dest)
              | PStr t \<Rightarrow> False
              | PNone \<Rightarrow> False)))"


section \<open>The base of an addressing operand\<close>

text \<open>
  The part of a memory operand between the width tag and the displacement, in the
  words of the spec: with a scale-index-base byte \<open>b\<close>, the base register alone when
  the index selector is 4, otherwise index register times scale plus base register;
  without one, the register named by the operand selector. The scale is one of 1, 2, 4
  and 8 and is written as its single decimal digit.
\<close>

definition sib_base_text :: "nat \<Rightarrow> string" where
  "sib_base_text b =
     (case parse_sib b of (sib_scale, sib_index, sib_base) \<Rightarrow>
        if sib_index = 4 then GLOBAL_REGISTER_NAMES ! sib_base
        else GLOBAL_REGISTER_NAMES ! sib_index @ ''*'' @ [dec_char sib_scale] @ '' + ''
             @ GLOBAL_REGISTER_NAMES ! sib_base)"

definition operand_base :: "byte list \<Rightarrow> nat \<Rightarrow> string" where
  "operand_base data rm_f =
     (if rm_f = 4 then sib_base_text (unat (data ! 1)) else GLOBAL_REGISTER_NAMES ! rm_f)"


section \<open>What the table records satisfy\<close>

text \<open>
  What every record of the table satisfies: it is stored under its own opcode; an
  extension map is never empty; an addressing-byte record has one of the four addressing
  encodings; a register-embedded record has a one-byte base opcode from
  \<open>REGADD_OPCODES\<close> and, with an immediate, width 4; a relative-displacement record
  has width 1 or 4.
\<close>

definition record_ok :: "nat \<Rightarrow> InstructionInfo \<Rightarrow> bool" where
  "record_ok k info =
     (info_opcode info = k
      \<and> info_extension_map info \<noteq> Some []
      \<and> (info_has_modrm info \<longrightarrow>
           info_encoding info = Enc_M \<or> info_encoding info = Enc_MI
           \<or> info_encoding info = Enc_MR \<or> info_encoding info = Enc_RM)
      \<and> (info_encoding info = Enc_O \<or> info_encoding info = Enc_OI \<longrightarrow>
           \<not> info_has_modrm info \<and> k \<in> set REGADD_OPCODES)
      \<and> (info_encoding info = Enc_OI \<longrightarrow> info_imm_size info = 4)
      \<and> (info_encoding info = Enc_D \<longrightarrow>
           info_imm_size info = 1 \<or> info_imm_size info = 4))"


section \<open>Evaluation on concrete inputs\<close>

lemma replicate_numeral: "replicate (numeral k) x = x # replicate (pred_numeral k) x"
  by (simp add: numeral_eq_Suc)

text \<open>
  The definitions that a concrete decode unfolds. The two recursive digit functions come
  last: \<open>decode_defs\<close> leaves them folded, \<open>eval_defs\<close> unfolds them too.
\<close>

lemmas decode_defs = disassemble_def py_index_def lookup_record_def GLOBAL_INSTRUCTIONS_MAP_def
  GLOBAL_INSTRUCTIONS_MAP_items_def InstructionInfo_init_def try_decode_def decode_body_def
  modrm_disassemble_def byte_at_def bind_e_def parse_modrm_def parse_sib_def
  modrm_get_mnemonic_def modrm_get_addressing_mode_def register_name_def
  GLOBAL_REGISTER_NAMES_def modrm_operand_def modrm_mod0_def modrm_mod1_def modrm_mod2_def
  sib_text_def disp8_text_def to_signed_def slice_def Instruction_init_def db_token_def
  no_modrm_no_regadd_disassemble_def regadd_disassemble_def regadd_check_opcode_def
  REGADD_OPCODES_def from_bytes_big_def from_bytes_little_signed_def format_0X_def
  zero_pad_def hex_char_def str_int_def dec_char_def str_opt_def str_val_def
  Instruction_str_def label_step_def replicate_numeral Let_def

lemmas eval_defs = decode_defs hex_nat.simps dec_nat.simps

section \<open>Hexadecimal rendering\<close>

lemma below_16_cases:
  assumes "d < (16::nat)"
  shows "d = 0 \<or> d = 1 \<or> d = 2 \<or> d = 3 \<or> d = 4 \<or> d = 5 \<or> d = 6 \<or> d = 7 \<or> d = 8 \<or> d = 9
         \<or> d = 10 \<or> d = 11 \<or> d = 12 \<or> d = 13 \<or> d = 14 \<or> d = 15"
  using assms by arith

lemma hex_char_upper: "d < 16 \<Longrightarrow> hex_char d \<in> set ''0123456789ABCDEF''"
  by (drule below_16_cases) (elim disjE; simp add: hex_char_def)

lemma hex_digit_value_hex_char: "d < 16 \<Longrightarrow> hex_digit_value (hex_char d) = d"
  by (drule below_16_cases) (elim disjE; simp add: hex_char_def hex_digit_value_def)

lemma is_upper_hex_append: "is_upper_hex (s @ t) = (is_upper_hex s \<and> is_upper_hex t)"
  by (simp add: is_upper_hex_def)

lemma hex_value_snoc: "hex_value (s @ [c]) = hex_value s * 16 + hex_digit_value c"
  by (simp add: hex_value_def)

lemma hex_nat_upper: "is_upper_hex (hex_nat n)"
proof (induction n rule: hex_nat.induct)
  case (1 n)
  show ?case
  proof (cases "n < 16")
    case True
    then show ?thesis
      using hex_char_upper [of n] by (subst hex_nat.simps) (simp add: is_upper_hex_def)
  next
    case False
    have "hex_char (n mod 16) \<in> set ''0123456789ABCDEF''"
      by (rule hex_char_upper) simp
    then have "is_upper_hex [hex_char (n mod 16)]"
      by (simp add: is_upper_hex_def)
    with False 1 show ?thesis
      by (subst hex_nat.simps) (simp add: is_upper_hex_append)
  qed
qed

lemma hex_value_hex_nat: "hex_value (hex_nat n) = n"
proof (induction n rule: hex_nat.induct)
  case (1 n)
  show ?case
  proof (cases "n < 16")
    case True
    then show ?thesis
      by (subst hex_nat.simps) (simp add: hex_value_def hex_digit_value_hex_char)
  next
    case False
    with 1 have "hex_value (hex_nat (n div 16)) = n div 16" by simp
    with False show ?thesis
      by (subst hex_nat.simps) (simp add: hex_value_snoc hex_digit_value_hex_char)
  qed
qed

lemma length_hex_nat: "0 < w \<Longrightarrow> n < 16 ^ w \<Longrightarrow> length (hex_nat n) \<le> w"
proof (induction n arbitrary: w rule: hex_nat.induct)
  case (1 n)
  show ?case
  proof (cases "n < 16")
    case True
    with 1(2) show ?thesis by (subst hex_nat.simps) simp
  next
    case False
    from 1(2) obtain v where w: "w = Suc v"
      by (cases w) auto
    have v: "0 < v"
    proof (rule ccontr)
      assume "\<not> 0 < v"
      with w 1(3) False show False by simp
    qed
    from 1(3) w have "n div 16 < 16 ^ v"
      by (simp add: less_mult_imp_div_less mult.commute)
    with 1(1) False v have "length (hex_nat (n div 16)) \<le> v" by simp
    with False w show ?thesis by (subst hex_nat.simps) simp
  qed
qed

lemma hex_value_zeros: "hex_value (replicate k (CHR ''0'') @ s) = hex_value s"
proof (induction k)
  case 0
  show ?case by simp
next
  case (Suc k)
  have "hex_value (CHR ''0'' # t) = hex_value t" for t
  proof (induction t rule: rev_induct)
    case Nil
    show ?case by (simp add: hex_value_def hex_digit_value_def)
  next
    case (snoc c t)
    have "hex_value (CHR ''0'' # t @ [c]) = hex_value ((CHR ''0'' # t) @ [c])" by simp
    also have "\<dots> = hex_value (CHR ''0'' # t) * 16 + hex_digit_value c"
      by (rule hex_value_snoc)
    finally show ?case using snoc by (simp add: hex_value_snoc)
  qed
  with Suc show ?case by simp
qed

lemma format_0X_digits:
  assumes "0 \<le> i" and "i < 16 ^ w" and "0 < w"
  shows "hex_digits_of w (nat i) (format_0X w i)"
proof -
  from assms have "nat i < 16 ^ w"
    by (simp add: nat_less_iff)
  with assms(3) have len: "length (hex_nat (nat i)) \<le> w" by (rule length_hex_nat)
  have "is_upper_hex (replicate (w - length (hex_nat (nat i))) (CHR ''0''))"
    by (simp add: is_upper_hex_def list_all_iff)
  with assms(1) len show ?thesis
    by (simp add: hex_digits_of_def format_0X_def zero_pad_def is_upper_hex_append
        hex_nat_upper hex_value_zeros hex_value_hex_nat)
qed


section \<open>Facts about the opcode table\<close>

lemma items_distinct: "distinct (map fst GLOBAL_INSTRUCTIONS_MAP_items)"
  by (simp add: GLOBAL_INSTRUCTIONS_MAP_items_def)

lemma items_ok: "list_all (\<lambda>(k, info). record_ok k info) GLOBAL_INSTRUCTIONS_MAP_items"
  by (simp add: GLOBAL_INSTRUCTIONS_MAP_items_def InstructionInfo_init_def record_ok_def
      REGADD_OPCODES_def)

lemma table_record_ok:
  assumes "GLOBAL_INSTRUCTIONS_MAP k = Some info"
  shows "record_ok k info"
proof -
  from assms have "(k, info) \<in> set GLOBAL_INSTRUCTIONS_MAP_items"
    by (simp add: GLOBAL_INSTRUCTIONS_MAP_def map_of_SomeD)
  with items_ok show ?thesis
    by (auto simp: list_all_iff)
qed

lemma regadd_records:
  "\<forall>r\<in>set REGADD_OPCODES. \<exists>info. GLOBAL_INSTRUCTIONS_MAP r = Some info
      \<and> info_opcode info = r \<and> \<not> info_has_modrm info
      \<and> (info_encoding info = Enc_O \<or> info_encoding info = Enc_OI)"
  by (simp add: REGADD_OPCODES_def GLOBAL_INSTRUCTIONS_MAP_def
      GLOBAL_INSTRUCTIONS_MAP_items_def InstructionInfo_init_def)

lemma regadd_check_opcode_cases:
  "regadd_check_opcode opc =
     (if 0x48 \<le> opc \<and> opc < 0x50 then Inr (GLOBAL_INSTRUCTIONS_MAP 0x48)
      else if 0x40 \<le> opc \<and> opc < 0x48 then Inr (GLOBAL_INSTRUCTIONS_MAP 0x40)
      else if 0xB8 \<le> opc \<and> opc < 0xC0 then Inr (GLOBAL_INSTRUCTIONS_MAP 0xB8)
      else if 0x58 \<le> opc \<and> opc < 0x60 then Inr (GLOBAL_INSTRUCTIONS_MAP 0x58)
      else if 0x50 \<le> opc \<and> opc < 0x58 then Inr (GLOBAL_INSTRUCTIONS_MAP 0x50)
      else Inr None)"
proof -
  from regadd_records obtain i1 i2 i3 i4 i5 where
    "GLOBAL_INSTRUCTIONS_MAP 0x48 = Some i1" "GLOBAL_INSTRUCTIONS_MAP 0x40 = Some i2"
    "GLOBAL_INSTRUCTIONS_MAP 0xB8 = Some i3" "GLOBAL_INSTRUCTIONS_MAP 0x58 = Some i4"
    "GLOBAL_INSTRUCTIONS_MAP 0x50 = Some i5"
    by (auto simp: REGADD_OPCODES_def)
  then show ?thesis
    by (simp add: regadd_check_opcode_def REGADD_OPCODES_def)
qed

lemma regadd_check_opcode_total: "\<exists>r. regadd_check_opcode opc = Inr r"
  by (simp add: regadd_check_opcode_cases)

lemma regadd_check_opcode_Some:
  assumes "regadd_check_opcode opc = Inr (Some info)"
  shows "GLOBAL_INSTRUCTIONS_MAP (info_opcode info) = Some info
         \<and> info_opcode info \<in> set REGADD_OPCODES
         \<and> info_opcode info \<le> opc \<and> opc < info_opcode info + 8
         \<and> \<not> info_has_modrm info
         \<and> (info_encoding info = Enc_O \<or> info_encoding info = Enc_OI)"
proof -
  from assms obtain r where r: "r \<in> set REGADD_OPCODES"
    and look: "GLOBAL_INSTRUCTIONS_MAP r = Some info" and "r \<le> opc" "opc < r + 8"
    by (auto simp: regadd_check_opcode_cases REGADD_OPCODES_def split: if_splits)
  moreover from r look regadd_records have "info_opcode info = r \<and> \<not> info_has_modrm info
      \<and> (info_encoding info = Enc_O \<or> info_encoding info = Enc_OI)"
    by fastforce
  ultimately show ?thesis by simp
qed

section \<open>Every decode step consumes at least one byte\<close>

lemma modrm_disassemble_size:
  assumes "modrm_disassemble data opcode_size info = Inr (tok, n)"
  shows "opcode_size + 1 \<le> n"
  using assms
  by (auto simp: modrm_disassemble_def bind_e_def Let_def
      split: sum.splits prod.splits if_splits)

lemma regadd_disassemble_size:
  assumes "regadd_disassemble data info = Inr (tok, n)"
  shows "1 \<le> n"
  using assms
  by (auto simp: regadd_disassemble_def bind_e_def Let_def split: sum.splits if_splits)

lemma no_modrm_no_regadd_disassemble_size:
  assumes "no_modrm_no_regadd_disassemble data opcode_size info offset = (tok, n)"
  shows "opcode_size \<le> n"
  using assms
  by (auto simp: no_modrm_no_regadd_disassemble_def Let_def split: if_splits)

lemma decode_body_size:
  assumes "decode_body data offset opcode_size info = Inr (tok, n)"
    and "opcode_size \<noteq> Some 0"
  shows "1 \<le> n"
proof (cases "info_has_modrm info")
  case True
  with assms(1) obtain sz where "modrm_disassemble (drop sz data) sz info = Inr (tok, n)"
    by (auto simp: decode_body_def split: option.splits)
  then show ?thesis by (auto dest: modrm_disassemble_size)
next
  case False
  show ?thesis
  proof (cases "info_encoding info = Enc_O \<or> info_encoding info = Enc_OI")
    case True
    with False assms(1) have "regadd_disassemble data info = Inr (tok, n)"
      by (auto simp: decode_body_def)
    then show ?thesis by (rule regadd_disassemble_size)
  next
    case no_reg: False
    with False assms(1) obtain sz where sz: "opcode_size = Some sz"
      and "no_modrm_no_regadd_disassemble (drop sz data) sz info offset = (tok, n)"
      by (auto simp: decode_body_def split: option.splits)
    then have "sz \<le> n" by (auto dest: no_modrm_no_regadd_disassemble_size)
    with sz assms(2) show ?thesis by simp
  qed
qed

lemma try_decode_size:
  assumes "try_decode data b0 offset opcode_size info = (tok, n)"
    and "opcode_size \<noteq> Some 0"
  shows "1 \<le> n"
  using assms
  by (auto simp: try_decode_def split: sum.splits dest: decode_body_size)

lemma lookup_record_total: "\<exists>r. lookup_record data b0 = Inr r"
  using regadd_check_opcode_total [of "unat b0"]
  by (auto simp: lookup_record_def split: option.splits sum.splits)

lemma lookup_record_opcode_size:
  assumes "lookup_record data b0 = Inr (Some (opcode_size, info))"
  shows "opcode_size \<noteq> Some 0"
  using assms
  by (auto simp: lookup_record_def split: option.splits sum.splits)

lemma py_index_0: "data \<noteq> [] \<Longrightarrow> py_index data 0 = Inr (hd data)"
  by (cases data) (simp_all add: py_index_def)

lemma disassemble_total:
  assumes "data \<noteq> []"
  shows "\<exists>tok n. disassemble data offset = Inr (tok, n) \<and> 1 \<le> n"
proof -
  obtain r where r: "lookup_record data (hd data) = Inr r"
    using lookup_record_total by blast
  show ?thesis
  proof (cases r)
    case None
    with r assms show ?thesis by (simp add: disassemble_def py_index_0)
  next
    case (Some p)
    obtain opcode_size info where p: "p = (opcode_size, info)" by (cases p)
    obtain tok n where t: "try_decode data (hd data) offset opcode_size info = (tok, n)"
      by (cases "try_decode data (hd data) offset opcode_size info")
    from r Some p have "opcode_size \<noteq> Some 0"
      by (auto dest: lookup_record_opcode_size)
    with t have "1 \<le> n" by (rule try_decode_size)
    with r Some p t assms show ?thesis by (simp add: disassemble_def py_index_0)
  qed
qed


section \<open>The dispatch boundary\<close>

lemma format_0X_2_byte:
  assumes "0 \<le> i" and "i < 256"
  shows "format_0X 2 i = [hex_char (nat i div 16), hex_char (nat i mod 16)]"
proof (cases "nat i < 16")
  case True
  with assms show ?thesis
    by (simp add: format_0X_def zero_pad_def hex_nat.simps [of "nat i"] hex_char_def
        replicate_numeral)
next
  case False
  from assms have "nat i div 16 < 16" by simp
  with False assms show ?thesis
    by (simp add: format_0X_def zero_pad_def hex_nat.simps [of "nat i"]
        hex_nat.simps [of "nat i div 16"])
qed

lemma unat_byte_less: "unat (b :: byte) < 256"
  using unsigned_less [of b, where ?'a = nat] by simp

lemma uint_byte_less: "uint (b :: byte) < 256"
  using uint_lt2p [of b] by simp

lemma db_token_str:
  "Instruction_str (db_token b)
     = Inr (''db 0x'' @ [hex_char (unat b div 16), hex_char (unat b mod 16)])"
proof -
  have "uint b < 256" by (rule uint_byte_less)
  then show ?thesis
    by (simp add: Instruction_str_def db_token_def Instruction_init_def format_0X_2_byte)
qed

lemma disassemble_fault:
  assumes "data \<noteq> []"
    and "lookup_record data (hd data) = Inr (Some (opcode_size, info))"
    and "decode_body data offset opcode_size info = Inl e"
  shows "disassemble data offset = Inr (db_token (hd data), 1)"
  using assms by (simp add: disassemble_def py_index_0 try_decode_def)

text \<open>
  C1. On a nonempty buffer \<open>disassemble\<close> returns a token and a size, never an
  exception. Whatever fault the decode of the selected record raises, the result is the
  placeholder for the first byte with size 1, and the placeholder renders as \<open>db 0x\<close>
  followed by the two upper-case hexadecimal digits of that byte.
\<close>

theorem disassemble_never_raises:
  assumes "data \<noteq> []"
  shows "(\<exists>tok n. disassemble data offset = Inr (tok, n))
    \<and> (\<forall>opcode_size info e.
          lookup_record data (hd data) = Inr (Some (opcode_size, info))
          \<and> decode_body data offset opcode_size info = Inl e
          \<longrightarrow> disassemble data offset = Inr (db_token (hd data), 1))
    \<and> Instruction_str (db_token (hd data))
        = Inr (''db 0x'' @ [hex_char (unat (hd data) div 16), hex_char (unat (hd data) mod 16)])
    \<and> hex_digits_of 2 (unat (hd data))
        [hex_char (unat (hd data) div 16), hex_char (unat (hd data) mod 16)]"
proof (intro conjI allI impI)
  show "\<exists>tok n. disassemble data offset = Inr (tok, n)"
    using disassemble_total [OF assms, of offset] by blast
next
  fix opcode_size info e
  assume "lookup_record data (hd data) = Inr (Some (opcode_size, info))
          \<and> decode_body data offset opcode_size info = Inl e"
  with assms show "disassemble data offset = Inr (db_token (hd data), 1)"
    by (blast intro: disassemble_fault)
next
  show "Instruction_str (db_token (hd data))
        = Inr (''db 0x'' @ [hex_char (unat (hd data) div 16), hex_char (unat (hd data) mod 16)])"
    by (rule db_token_str)
next
  have b: "uint (hd data) < 256" by (rule uint_byte_less)
  then have "hex_digits_of 2 (nat (uint (hd data))) (format_0X 2 (uint (hd data)))"
    by (intro format_0X_digits) simp_all
  with b show "hex_digits_of 2 (unat (hd data))
        [hex_char (unat (hd data) div 16), hex_char (unat (hd data) mod 16)]"
    by (simp add: format_0X_2_byte)
qed

theorem disassemble_never_raises_witness:
  "[0xFF, 0x18 :: byte] \<noteq> []
   \<and> lookup_record [0xFF, 0x18] 0xFF = Inr (Some (Some 1, the (GLOBAL_INSTRUCTIONS_MAP 0xFF)))
   \<and> decode_body [0xFF, 0x18] 0 (Some 1) (the (GLOBAL_INSTRUCTIONS_MAP 0xFF))
       = Inl (Exception_INVALID_OPCODE_EXTENSION 3 0xFF)
   \<and> disassemble [0xFF, 0x18] 0 = Inr (db_token 0xFF, 1)
   \<and> Instruction_str (db_token 0xFF) = Inr ''db 0xFF''"
proof -
  have ne: "[0xFF, 0x18 :: byte] \<noteq> []" by simp
  have look: "lookup_record [0xFF, 0x18] (hd [0xFF, 0x18])
      = Inr (Some (Some 1, the (GLOBAL_INSTRUCTIONS_MAP 0xFF)))"
    by (simp add: eval_defs)
  have fault: "decode_body [0xFF, 0x18] 0 (Some 1) (the (GLOBAL_INSTRUCTIONS_MAP 0xFF))
      = Inl (Exception_INVALID_OPCODE_EXTENSION 3 0xFF)"
    by (simp add: eval_defs)
  from disassemble_never_raises [OF ne, of 0] look fault
  have "disassemble [0xFF, 0x18] 0 = Inr (db_token (hd [0xFF, 0x18]), 1)"
    and "Instruction_str (db_token (hd [0xFF, 0x18 :: byte]))
        = Inr (''db 0x'' @ [hex_char (unat (hd [0xFF, 0x18 :: byte]) div 16),
                            hex_char (unat (hd [0xFF, 0x18 :: byte]) mod 16)])"
    by blast+
  with ne look fault show ?thesis
    by (simp add: hex_char_def)
qed


section \<open>Tokens with the relative-displacement encoding\<close>

lemma lookup_record_in_table:
  assumes "lookup_record data b0 = Inr (Some (opcode_size, info))"
  shows "\<exists>k. GLOBAL_INSTRUCTIONS_MAP k = Some info"
proof (cases opcode_size)
  case None
  with assms have "regadd_check_opcode (unat b0) = Inr (Some info)"
    by (auto simp: lookup_record_def split: option.splits sum.splits)
  then show ?thesis by (blast dest: regadd_check_opcode_Some)
next
  case (Some sz)
  with assms show ?thesis
    by (auto simp: lookup_record_def split: option.splits sum.splits)
qed

lemma modrm_disassemble_encoding:
  assumes "modrm_disassemble data opcode_size info = Inr (tok, n)"
  shows "encoding tok = Some (info_encoding info) \<and> \<not> is_db tok"
  using assms
  by (auto simp: modrm_disassemble_def bind_e_def Let_def Instruction_init_def
      split: sum.splits prod.splits if_splits)

lemma regadd_disassemble_encoding:
  assumes "regadd_disassemble data info = Inr (tok, n)"
  shows "encoding tok = Some (info_encoding info) \<and> \<not> is_db tok"
  using assms
  by (auto simp: regadd_disassemble_def bind_e_def Let_def Instruction_init_def
      split: sum.splits if_splits)

lemma no_modrm_no_regadd_disassemble_D:
  assumes "info_encoding info = Enc_D"
  shows "no_modrm_no_regadd_disassemble data sz info offset
     = (Instruction_init
          \<lparr> mnemonic := info_mnemonic info, encoding := Some Enc_D,
            immediate := PInt (from_bytes_little_signed (take (info_imm_size info) data)
                               + (offset + int (sz + info_imm_size info))) \<rparr>,
        sz + info_imm_size info)"
  using assms by (simp add: no_modrm_no_regadd_disassemble_def Let_def)

lemma no_modrm_no_regadd_disassemble_encoding:
  assumes "no_modrm_no_regadd_disassemble data sz info offset = (tok, n)"
  shows "encoding tok = Some (info_encoding info) \<and> \<not> is_db tok"
  using assms
  by (auto simp: no_modrm_no_regadd_disassemble_def Let_def Instruction_init_def
      split: if_splits)

lemma decode_body_encoding:
  assumes "decode_body data offset opcode_size info = Inr (tok, n)"
  shows "encoding tok = Some (info_encoding info) \<and> \<not> is_db tok"
  using assms
  by (auto simp: decode_body_def
      split: if_splits option.splits
      dest: modrm_disassemble_encoding regadd_disassemble_encoding
        no_modrm_no_regadd_disassemble_encoding)

lemma decode_body_D:
  assumes body: "decode_body data offset opcode_size info = Inr (tok, n)"
    and ok: "record_ok k info"
    and enc: "info_encoding info = Enc_D"
  shows "\<exists>sz. opcode_size = Some sz \<and> n = sz + info_imm_size info
      \<and> tok = Instruction_init
          \<lparr> mnemonic := info_mnemonic info, encoding := Some Enc_D,
            immediate :=
              PInt (from_bytes_little_signed (take (info_imm_size info) (drop sz data))
                    + (offset + int n)) \<rparr>"
proof -
  from ok enc have "\<not> info_has_modrm info"
    by (auto simp: record_ok_def)
  with body enc obtain sz where sz: "opcode_size = Some sz"
    and "no_modrm_no_regadd_disassemble (drop sz data) sz info offset = (tok, n)"
    by (auto simp: decode_body_def split: option.splits)
  with enc show ?thesis
    by (auto simp: no_modrm_no_regadd_disassemble_D)
qed

text \<open>
  Where a token with encoding D comes from: a record of the table with that
  encoding, decoded without a fault by the non-addressing path.
\<close>

lemma disassemble_D:
  assumes dis: "disassemble data offset = Inr (tok, n)"
    and enc: "encoding tok = Some Enc_D"
  shows "\<exists>sz info. lookup_record data (hd data) = Inr (Some (Some sz, info))
      \<and> info_encoding info = Enc_D
      \<and> (info_imm_size info = 1 \<or> info_imm_size info = 4)
      \<and> n = sz + info_imm_size info
      \<and> tok = Instruction_init
          \<lparr> mnemonic := info_mnemonic info, encoding := Some Enc_D,
            immediate :=
              PInt (from_bytes_little_signed (take (info_imm_size info) (drop sz data))
                    + (offset + int n)) \<rparr>"
proof -
  from dis have ne: "data \<noteq> []"
    by (auto simp: disassemble_def py_index_def)
  obtain r where r: "lookup_record data (hd data) = Inr r"
    using lookup_record_total by blast
  from dis enc ne r obtain opcode_size info
    where look: "lookup_record data (hd data) = Inr (Some (opcode_size, info))"
      and t: "try_decode data (hd data) offset opcode_size info = (tok, n)"
    by (cases r) (auto simp: disassemble_def py_index_0 db_token_def Instruction_init_def)
  from t enc have body: "decode_body data offset opcode_size info = Inr (tok, n)"
    by (auto simp: try_decode_def db_token_def Instruction_init_def split: sum.splits)
  with enc have e: "info_encoding info = Enc_D"
    by (auto dest: decode_body_encoding)
  from look obtain k where "GLOBAL_INSTRUCTIONS_MAP k = Some info"
    by (blast dest: lookup_record_in_table)
  then have ok: "record_ok k info" by (rule table_record_ok)
  with e have w: "info_imm_size info = 1 \<or> info_imm_size info = 4"
    by (simp add: record_ok_def)
  from decode_body_D [OF body ok e] look w e show ?thesis by auto
qed

lemma label_step_total:
  assumes "disassemble data offset = Inr (tok, n)"
  shows "\<exists>tok' labels'. label_step tok labels = Inr (tok', labels')"
proof (cases "encoding tok = Some Enc_D")
  case True
  from disassemble_D [OF assms True] obtain i where "immediate tok = PInt i"
    by (auto simp: Instruction_init_def)
  with True show ?thesis by (simp add: label_step_def Let_def)
next
  case False
  then show ?thesis by (simp add: label_step_def)
qed

section \<open>The sweep terminates\<close>

lemma sweep_loop_total:
  "\<exists>c out labs. sweep_loop data counter output_list labels = Some (Inr (c, out, labs))"
proof (induction "length data - counter" arbitrary: counter output_list labels
    rule: less_induct)
  case less
  show ?case
  proof (cases "counter < length data")
    case False
    then show ?thesis by (subst sweep_loop.simps) simp
  next
    case True
    then have "drop counter data \<noteq> []" by simp
    then obtain tok n where d: "disassemble (drop counter data) (int counter) = Inr (tok, n)"
      and n: "1 \<le> n"
      using disassemble_total by blast
    from d obtain tok' labels' where l: "label_step tok labels = Inr (tok', labels')"
      using label_step_total by blast
    from True n have "length data - (counter + n) < length data - counter" by simp
    from less [OF this] obtain c out labs where
      "sweep_loop data (counter + n)
         (dict_set output_list counter (tok', slice counter (counter + n) data)) labels'
       = Some (Inr (c, out, labs))"
      by blast
    with True d l show ?thesis by (subst sweep_loop.simps) simp
  qed
qed

lemma sweep_sizes_total:
  "\<exists>ns. sweep_sizes data counter = Some ns \<and> (\<forall>n\<in>set ns. 1 \<le> n)"
proof (induction "length data - counter" arbitrary: counter rule: less_induct)
  case less
  show ?case
  proof (cases "counter < length data")
    case False
    then show ?thesis by (subst sweep_sizes.simps) simp
  next
    case True
    then have "drop counter data \<noteq> []" by simp
    then obtain tok n where d: "disassemble (drop counter data) (int counter) = Inr (tok, n)"
      and n: "1 \<le> n"
      using disassemble_total by blast
    from True n have "length data - (counter + n) < length data - counter" by simp
    from less [OF this] obtain ns where
      "sweep_sizes data (counter + n) = Some ns" and "\<forall>m\<in>set ns. 1 \<le> m"
      by blast
    with True d n show ?thesis by (subst sweep_sizes.simps) simp
  qed
qed


text \<open>
  C3. The linear sweep terminates on every buffer and returns its two dictionaries
  without an exception: at every cursor inside the buffer the decode step returns a
  size of at least 1 (the placeholder included), so the cursor strictly increases;
  the list of consumed sizes exists and holds no zero.
\<close>

theorem linnear_sweep_terminates:
  "(\<exists>output_list labels. linnear_sweep data = Some (Inr (output_list, labels)))
   \<and> (\<forall>counter<length data. \<exists>tok n.
         disassemble (drop counter data) (int counter) = Inr (tok, n)
         \<and> 1 \<le> n \<and> counter < counter + n)
   \<and> (\<exists>ns. sweep_sizes data 0 = Some ns \<and> (\<forall>n\<in>set ns. 1 \<le> n))"
proof (intro conjI allI impI)
  obtain c out labs where "sweep_loop data 0 [] [] = Some (Inr (c, out, labs))"
    using sweep_loop_total by blast
  then show "\<exists>output_list labels. linnear_sweep data = Some (Inr (output_list, labels))"
    by (simp add: linnear_sweep_def)
next
  fix counter
  assume "counter < length data"
  then have "drop counter data \<noteq> []" by simp
  then obtain tok n where "disassemble (drop counter data) (int counter) = Inr (tok, n)"
    and "1 \<le> n"
    using disassemble_total by blast
  then show "\<exists>tok n. disassemble (drop counter data) (int counter) = Inr (tok, n)
      \<and> 1 \<le> n \<and> counter < counter + n"
    by auto
next
  show "\<exists>ns. sweep_sizes data 0 = Some ns \<and> (\<forall>n\<in>set ns. 1 \<le> n)"
    by (rule sweep_sizes_total)
qed

theorem linnear_sweep_terminates_witness:
  "(1::nat) < length [0x90, 0xD6 :: byte]
   \<and> disassemble (drop 1 [0x90, 0xD6]) 1 = Inr (db_token 0xD6, 1)
   \<and> sweep_sizes [0x90, 0xD6] 0 = Some [1, 1]
   \<and> linnear_sweep [0x90, 0xD6]
       = Some (Inr ([(0, Instruction_init \<lparr> mnemonic := Some ''nop'', encoding := Some Enc_ZO \<rparr>,
                      [0x90]),
                     (1, db_token 0xD6, [0xD6])], []))"
proof -
  have len: "(1::nat) < length [0x90, 0xD6 :: byte]" by simp
  have d0: "disassemble [0x90, 0xD6] 0
      = Inr (Instruction_init \<lparr> mnemonic := Some ''nop'', encoding := Some Enc_ZO \<rparr>, 1)"
    by (simp add: eval_defs)
  have d1: "disassemble [0xD6] 1 = Inr (db_token 0xD6, 1)"
    by (simp add: eval_defs)
  have sizes: "sweep_sizes [0x90, 0xD6] 0 = Some [1, 1]"
    by (simp add: sweep_sizes.simps d0 d1)
  have sweep: "linnear_sweep [0x90, 0xD6]
       = Some (Inr ([(0, Instruction_init \<lparr> mnemonic := Some ''nop'', encoding := Some Enc_ZO \<rparr>,
                      [0x90]),
                     (1, db_token 0xD6, [0xD6])], []))"
    by (simp add: linnear_sweep_def sweep_loop.simps d0 d1 label_step_def slice_def
        Instruction_init_def db_token_def)
  have d1': "disassemble (drop 1 [0x90, 0xD6]) 1 = Inr (db_token 0xD6, 1)"
    using d1 by simp
  from linnear_sweep_terminates [of "[0x90, 0xD6]"] len
  have "\<exists>tok n. disassemble (drop 1 [0x90, 0xD6]) (int 1) = Inr (tok, n) \<and> 1 \<le> n"
    by blast
  from this len d1' sizes sweep show ?thesis by blast
qed


section \<open>The cursor, the offsets and the raw slices of a sweep\<close>

lemma dict_set_fresh:
  assumes "k \<notin> fst ` set kvs"
  shows "dict_set kvs k v = kvs @ [(k, v)]"
  using assms by (induction kvs) auto

lemma step_offsets_bounds:
  assumes "o' \<in> set (step_offsets counter ns)"
  shows "counter \<le> o'"
  using assms by (induction ns arbitrary: counter) force+

text \<open>
  The loop from cursor \<open>counter\<close> on, with every key so far below the cursor: the
  final cursor is the start plus the consumed sizes, the new keys are the starting
  offsets of the steps, each stored slice is the buffer from its offset for the consumed
  size (cut at the end), every step starts inside the buffer, and the loop ends at or
  past the end.
\<close>

lemma sweep_loop_trace:
  assumes "\<forall>k\<in>fst ` set output_list. k < counter"
  shows "\<exists>ns c out labs.
      sweep_sizes data counter = Some ns
      \<and> sweep_loop data counter output_list labels = Some (Inr (c, out, labs))
      \<and> c = counter + sum_list ns
      \<and> map fst out = map fst output_list @ step_offsets counter ns
      \<and> map (\<lambda>kv. snd (snd kv)) out
          = map (\<lambda>kv. snd (snd kv)) output_list
            @ map (\<lambda>(o', n). slice o' (o' + n) data) (zip (step_offsets counter ns) ns)
      \<and> (\<forall>n\<in>set ns. 1 \<le> n)
      \<and> (\<forall>o'\<in>set (step_offsets counter ns). o' < length data)
      \<and> length data \<le> c"
  using assms
proof (induction "length data - counter" arbitrary: counter output_list labels
    rule: less_induct)
  case less
  show ?case
  proof (cases "counter < length data")
    case False
    then have "sweep_sizes data counter = Some []"
      and "sweep_loop data counter output_list labels = Some (Inr (counter, output_list, labels))"
      by (subst sweep_sizes.simps, simp, subst sweep_loop.simps, simp)
    with False show ?thesis by simp
  next
    case True
    then have "drop counter data \<noteq> []" by simp
    then obtain tok n where d: "disassemble (drop counter data) (int counter) = Inr (tok, n)"
      and n: "1 \<le> n"
      using disassemble_total by blast
    from d obtain tok' labels' where l: "label_step tok labels = Inr (tok', labels')"
      using label_step_total by blast
    let ?raw = "slice counter (counter + n) data"
    from less.prems have fresh: "counter \<notin> fst ` set output_list" by auto
    then have set: "dict_set output_list counter (tok', ?raw) = output_list @ [(counter, tok', ?raw)]"
      by (rule dict_set_fresh)
    from less.prems n
    have keys: "\<forall>k\<in>fst ` set (output_list @ [(counter, tok', ?raw)]). k < counter + n"
      by auto
    from True n have "length data - (counter + n) < length data - counter" by simp
    from less.hyps [OF this keys, of labels'] obtain ns c out labs where
      ih: "sweep_sizes data (counter + n) = Some ns"
        "sweep_loop data (counter + n) (output_list @ [(counter, tok', ?raw)]) labels'
         = Some (Inr (c, out, labs))"
        "c = counter + n + sum_list ns"
        "map fst out = map fst (output_list @ [(counter, tok', ?raw)])
           @ step_offsets (counter + n) ns"
        "map (\<lambda>kv. snd (snd kv)) out
          = map (\<lambda>kv. snd (snd kv)) (output_list @ [(counter, tok', ?raw)])
            @ map (\<lambda>(o', n). slice o' (o' + n) data) (zip (step_offsets (counter + n) ns) ns)"
        "\<forall>m\<in>set ns. 1 \<le> m"
        "\<forall>o'\<in>set (step_offsets (counter + n) ns). o' < length data"
        "length data \<le> c"
      by blast
    from True d ih(1) have s1: "sweep_sizes data counter = Some (n # ns)"
      by (subst sweep_sizes.simps) simp
    from True d l set ih(2)
    have s2: "sweep_loop data counter output_list labels = Some (Inr (c, out, labs))"
      by (subst sweep_loop.simps) simp
    from s1 s2 ih(3-8) n True show ?thesis
      by simp
  qed
qed

text \<open>Contiguous slices that reach the end of the buffer concatenate to the rest of it.\<close>

lemma concat_slices:
  assumes "length data \<le> counter + sum_list ns"
  shows "concat (map (\<lambda>(o', n). slice o' (o' + n) data) (zip (step_offsets counter ns) ns))
         = drop counter data"
  using assms
proof (induction ns arbitrary: counter)
  case Nil
  then show ?case by simp
next
  case (Cons n ns)
  from Cons.prems have "length data \<le> (counter + n) + sum_list ns" by simp
  then have "concat (map (\<lambda>(o', n). slice o' (o' + n) data)
                 (zip (step_offsets (counter + n) ns) ns)) = drop (counter + n) data"
    by (rule Cons.IH)
  moreover have "take n (drop counter data) @ drop (counter + n) data = drop counter data"
    by (metis add.commute append_take_drop_id drop_drop)
  ultimately show ?case by (simp add: slice_def)
qed


text \<open>
  C2, as stated, fails: the single byte \<open>0xE8\<close> (a call whose 4-byte displacement
  is missing) is decoded in one step of consumed size 5, in a buffer of length 1.
\<close>

theorem sweep_sizes_sum_counterexample:
  "disassemble [0xE8] 0
     = Inr (Instruction_init
              \<lparr> mnemonic := Some ''call'', encoding := Some Enc_D, immediate := PInt 5 \<rparr>, 5)
   \<and> sweep_sizes [0xE8] 0 = Some [5]
   \<and> sum_list [5 :: nat] \<noteq> length [0xE8 :: byte]"
proof -
  have d: "disassemble [0xE8] 0
     = Inr (Instruction_init
              \<lparr> mnemonic := Some ''call'', encoding := Some Enc_D, immediate := PInt 5 \<rparr>, 5)"
    by (simp add: eval_defs)
  then have "sweep_sizes [0xE8] 0 = Some [5]"
    by (simp add: sweep_sizes.simps)
  with d show ?thesis by simp
qed

text \<open>
  C2, amended. For every buffer the decode steps of the sweep are contiguous from
  offset 0: the keys of the output are the starting offsets that the consumed sizes
  give, each step starts inside the buffer, each stored slice is the buffer from its
  offset for the consumed size (cut at the end of the buffer), and the slices
  concatenate to the buffer, so no byte is decoded twice and none is skipped. The sum
  of the consumed sizes is at least the buffer length; the final step may consume past
  the end.
\<close>

theorem sweep_sizes_cover:
  "\<exists>ns output_list labels.
      sweep_sizes data 0 = Some ns
      \<and> linnear_sweep data = Some (Inr (output_list, labels))
      \<and> map fst output_list = step_offsets 0 ns
      \<and> map (\<lambda>kv. snd (snd kv)) output_list
          = map (\<lambda>(o', n). slice o' (o' + n) data) (zip (step_offsets 0 ns) ns)
      \<and> concat (map (\<lambda>kv. snd (snd kv)) output_list) = data
      \<and> (\<forall>o'\<in>set (step_offsets 0 ns). o' < length data)
      \<and> length data \<le> sum_list ns"
proof -
  have "\<forall>k\<in>fst ` set ([] :: (nat \<times> Instruction \<times> byte list) list). k < 0" by simp
  from sweep_loop_trace [OF this, of data "[]"] obtain ns c out labs where
    t: "sweep_sizes data 0 = Some ns"
      "sweep_loop data 0 [] [] = Some (Inr (c, out, labs))"
      "c = 0 + sum_list ns"
      "map fst out = map fst ([] :: (nat \<times> Instruction \<times> byte list) list) @ step_offsets 0 ns"
      "map (\<lambda>kv. snd (snd kv)) out
        = map (\<lambda>kv. snd (snd kv)) ([] :: (nat \<times> Instruction \<times> byte list) list)
          @ map (\<lambda>(o', n). slice o' (o' + n) data) (zip (step_offsets 0 ns) ns)"
      "\<forall>o'\<in>set (step_offsets 0 ns). o' < length data"
      "length data \<le> c"
    by blast
  from t(3,7) have len: "length data \<le> 0 + sum_list ns" by simp
  from t(5) concat_slices [OF len]
  have "concat (map (\<lambda>kv. snd (snd kv)) out) = data" by simp
  moreover from t(2) have "linnear_sweep data = Some (Inr (out, labs))"
    by (simp add: linnear_sweep_def)
  ultimately show ?thesis using t len by auto
qed

theorem sweep_sizes_cover_witness:
  "sweep_sizes [0x90, 0xE8] 0 = Some [1, 5]
   \<and> step_offsets 0 [1, 5] = [0, 1]
   \<and> (\<exists>t0 t1 labels. linnear_sweep [0x90, 0xE8]
         = Some (Inr ([(0, t0, [0x90]), (1, t1, [0xE8])], labels)))
   \<and> (0::nat) < length [0x90, 0xE8 :: byte] \<and> (1::nat) < length [0x90, 0xE8 :: byte]
   \<and> length [0x90, 0xE8 :: byte] \<le> sum_list [1, 5]"
proof -
  have d0: "disassemble [0x90, 0xE8] 0
      = Inr (Instruction_init \<lparr> mnemonic := Some ''nop'', encoding := Some Enc_ZO \<rparr>, 1)"
    by (simp add: eval_defs)
  have d1: "disassemble [0xE8] 1
      = Inr (Instruction_init
               \<lparr> mnemonic := Some ''call'', encoding := Some Enc_D, immediate := PInt 6 \<rparr>, 5)"
    by (simp add: eval_defs)
  have sizes: "sweep_sizes [0x90, 0xE8] 0 = Some [1, 5]"
    by (simp add: sweep_sizes.simps d0 d1)
  from sweep_sizes_cover [of "[0x90, 0xE8]"] sizes obtain output_list labels where
    sw: "linnear_sweep [0x90, 0xE8] = Some (Inr (output_list, labels))"
    and keys: "map fst output_list = step_offsets 0 [1, 5]"
    and raws: "map (\<lambda>kv. snd (snd kv)) output_list
          = map (\<lambda>(o', n). slice o' (o' + n) [0x90, 0xE8])
              (zip (step_offsets 0 [1, 5]) [1, 5])"
    and inside: "\<forall>o'\<in>set (step_offsets 0 [1, 5]). o' < length [0x90, 0xE8 :: byte]"
    and len: "length [0x90, 0xE8 :: byte] \<le> sum_list [1, 5]"
    by auto
  from keys raws obtain t0 t1 where
    "output_list = [(0, t0, [0x90]), (1, t1, [0xE8])]"
    by (auto simp: slice_def)
  with sw sizes inside len show ?thesis by simp
qed


section \<open>Relative displacements and labels\<close>

lemma map_of_dict_set: "map_of (dict_set kvs k v) k = Some v"
  by (induction kvs) auto

lemma map_of_dict_set_other:
  assumes "k' \<noteq> k"
  shows "map_of (dict_set kvs k v) k' = map_of kvs k'"
  using assms by (induction kvs) auto

lemma set_dict_set: "set (dict_set kvs k v) \<subseteq> insert (k, v) (set kvs)"
proof (induction kvs)
  case Nil
  show ?case by simp
next
  case (Cons p kvs)
  obtain k' v' where "p = (k', v')" by (cases p)
  with Cons show ?case by (cases "k' = k") auto
qed

lemma label_step_D:
  assumes "encoding tok = Some Enc_D" and "immediate tok = PInt dest"
  shows "label_step tok labels
     = Inr (tok \<lparr> immediate := PStr (label_text dest) \<rparr>,
            dict_set labels dest (label_text dest))"
  using assms by (simp add: label_step_def label_text_def Let_def)

lemma label_step_other:
  assumes "encoding tok \<noteq> Some Enc_D"
  shows "label_step tok labels = Inr (tok, labels)"
  using assms by (simp add: label_step_def)

text \<open>
  One label step keeps the labels of older entries, keeps every stored label the text
  of its key, and labels the new entry when its token has encoding D.
\<close>

lemma label_step_invariant:
  assumes d: "disassemble (drop counter data) (int counter) = Inr (tok, n)"
    and l: "label_step tok labels = Inr (tok', labels')"
    and texts: "\<forall>kv\<in>set labels. snd kv = label_text (fst kv)"
    and old: "\<forall>entry\<in>set output_list.
                encoding (fst (snd entry)) = Some Enc_D \<longrightarrow> labelled data labels entry"
  shows "(\<forall>kv\<in>set labels'. snd kv = label_text (fst kv))
      \<and> (\<forall>entry\<in>set (output_list @ [(counter, tok', raw)]).
            encoding (fst (snd entry)) = Some Enc_D \<longrightarrow> labelled data labels' entry)"
proof (cases "encoding tok = Some Enc_D")
  case False
  with l have "tok' = tok" and "labels' = labels"
    by (simp_all add: label_step_other)
  with False texts old show ?thesis by auto
next
  case True
  from disassemble_D [OF d True] obtain dest where imm: "immediate tok = PInt dest"
    by (auto simp: Instruction_init_def)
  with True l have tok': "tok' = tok \<lparr> immediate := PStr (label_text dest) \<rparr>"
    and labels': "labels' = dict_set labels dest (label_text dest)"
    by (simp_all add: label_step_D)
  have t: "\<forall>kv\<in>set labels'. snd kv = label_text (fst kv)"
    using texts set_dict_set [of labels dest "label_text dest"] labels' by auto
  have new: "labelled data labels' (counter, tok', raw)"
    using d imm tok' labels' by (simp add: labelled_def map_of_dict_set)
  have keep: "labelled data labels' entry" if "labelled data labels entry" for entry
  proof -
    obtain o' t' r' where e: "entry = (o', t', r')" by (cases entry)
    with that obtain tk s dst where
      dk: "disassemble (drop o' data) (int o') = Inr (tk, s)"
      and ik: "immediate tk = PInt dst"
      and lk: "immediate t' = PStr (label_text dst)"
      and mk: "map_of labels dst = Some (label_text dst)"
      by (auto simp: labelled_def split: sum.splits pyval.splits)
    have "map_of labels' dst = Some (label_text dst)"
    proof (cases "dst = dest")
      case True
      with labels' show ?thesis by (simp add: map_of_dict_set)
    next
      case False
      with labels' mk show ?thesis by (simp add: map_of_dict_set_other)
    qed
    with e dk ik lk show ?thesis by (simp add: labelled_def)
  qed
  from old keep new t show ?thesis by auto
qed

lemma sweep_loop_labels:
  assumes "sweep_loop data counter output_list labels = Some (Inr (c, out, labs))"
    and "\<forall>k\<in>fst ` set output_list. k < counter"
    and "\<forall>kv\<in>set labels. snd kv = label_text (fst kv)"
    and "\<forall>entry\<in>set output_list.
           encoding (fst (snd entry)) = Some Enc_D \<longrightarrow> labelled data labels entry"
  shows "\<forall>entry\<in>set out.
           encoding (fst (snd entry)) = Some Enc_D \<longrightarrow> labelled data labs entry"
  using assms
proof (induction "length data - counter" arbitrary: counter output_list labels
    rule: less_induct)
  case less
  show ?case
  proof (cases "counter < length data")
    case False
    with less.prems(1) have "out = output_list" and "labs = labels"
      by (subst (asm) sweep_loop.simps, simp)+
    with less.prems(4) show ?thesis by simp
  next
    case True
    then have "drop counter data \<noteq> []" by simp
    then obtain tok n where d: "disassemble (drop counter data) (int counter) = Inr (tok, n)"
      and n: "1 \<le> n"
      using disassemble_total by blast
    from d obtain tok' labels' where l: "label_step tok labels = Inr (tok', labels')"
      using label_step_total by blast
    let ?raw = "slice counter (counter + n) data"
    let ?out = "output_list @ [(counter, tok', ?raw)]"
    from less.prems(2) have "counter \<notin> fst ` set output_list" by auto
    then have set: "dict_set output_list counter (tok', ?raw) = ?out"
      by (rule dict_set_fresh)
    from True d l set less.prems(1)
    have rec: "sweep_loop data (counter + n) ?out labels' = Some (Inr (c, out, labs))"
      by (subst (asm) sweep_loop.simps) simp
    from less.prems(2) n have keys: "\<forall>k\<in>fst ` set ?out. k < counter + n"
      by auto
    from label_step_invariant [OF d l less.prems(3) less.prems(4), of ?raw]
    have texts: "\<forall>kv\<in>set labels'. snd kv = label_text (fst kv)"
      and inv: "\<forall>entry\<in>set ?out.
                  encoding (fst (snd entry)) = Some Enc_D \<longrightarrow> labelled data labels' entry"
      by blast+
    from True n have "length data - (counter + n) < length data - counter" by simp
    from less.hyps [OF this rec keys texts inv] show ?thesis .
  qed
qed

lemma linnear_sweep_labels:
  assumes "linnear_sweep data = Some (Inr (output_list, labels))"
    and "entry \<in> set output_list"
    and "encoding (fst (snd entry)) = Some Enc_D"
  shows "labelled data labels entry"
proof -
  from assms(1) obtain c where
    "sweep_loop data 0 [] [] = Some (Inr (c, output_list, labels))"
    by (auto simp: linnear_sweep_def split: option.splits sum.splits)
  from sweep_loop_labels [OF this] assms(2,3) show ?thesis by simp
qed

text \<open>
  C4, as stated, fails: a short jump at offset 0 with displacement \<open>-16\<close> has the
  destination \<open>0 + 2 - 16 = -14\<close>, and the format \<^verbatim>\<open>08X\<close> renders a negative number
  with a minus sign and seven digits, so the label is not \<open>offset_\<close>, eight
  hexadecimal digits and \<open>h\<close>.
\<close>

theorem label_negative_counterexample:
  "linnear_sweep [0xEB, 0xF0]
     = Some (Inr ([(0, Instruction_init
                        \<lparr> mnemonic := Some ''jmp'', encoding := Some Enc_D,
                          immediate := PStr (''offset_'' @ ''-000000E'' @ ''h'') \<rparr>,
                    [0xEB, 0xF0])],
                  [(- 14, ''offset_'' @ ''-000000E'' @ ''h'')]))
   \<and> \<not> is_upper_hex ''-000000E''"
proof -
  have d: "disassemble [0xEB, 0xF0] 0
     = Inr (Instruction_init
              \<lparr> mnemonic := Some ''jmp'', encoding := Some Enc_D, immediate := PInt (- 14) \<rparr>, 2)"
    by (simp add: eval_defs)
  have "format_0X 8 (- 14) = ''-000000E''"
    by (simp add: eval_defs)
  with d have "linnear_sweep [0xEB, 0xF0]
     = Some (Inr ([(0, Instruction_init
                        \<lparr> mnemonic := Some ''jmp'', encoding := Some Enc_D,
                          immediate := PStr (''offset_'' @ ''-000000E'' @ ''h'') \<rparr>,
                    [0xEB, 0xF0])],
                  [(- 14, ''offset_'' @ ''-000000E'' @ ''h'')]))"
    by (simp add: linnear_sweep_def sweep_loop.simps label_step_def slice_def
        Instruction_init_def Let_def)
  then show ?thesis by (simp add: is_upper_hex_def)
qed

text \<open>
  C4, amended. A token with encoding D that \<open>disassemble\<close> returns at offset
  \<open>offset\<close> with consumed size \<open>s\<close> comes from a record with that encoding and
  immediate width 1 or 4; with \<open>d\<close> the signed little-endian value of the immediate
  bytes after the opcode, the token stores \<open>offset + s + d\<close>. The label step of the
  sweep replaces it with \<open>offset_\<close>, the \<^verbatim>\<open>08X\<close> rendering of that number and \<open>h\<close>,
  and stores the label under the number. The rendering is eight upper-case hexadecimal
  digits of the destination when the destination is in \<open>[0, 2^32)\<close>. In the result of
  a whole sweep every entry whose token has encoding D carries the label of the
  destination that the decode at its offset stored, and the label mapping maps that
  destination to the label.
\<close>

theorem relative_displacement_label:
  "(disassemble data offset = Inr (tok, s) \<and> encoding tok = Some Enc_D \<longrightarrow>
      (\<exists>sz info d dest label.
         lookup_record data (hd data) = Inr (Some (Some sz, info))
         \<and> info_encoding info = Enc_D
         \<and> (info_imm_size info = 1 \<or> info_imm_size info = 4)
         \<and> s = sz + info_imm_size info
         \<and> d = from_bytes_little_signed (take (info_imm_size info) (drop sz data))
         \<and> dest = offset + int s + d
         \<and> immediate tok = PInt dest
         \<and> label = ''offset_'' @ format_0X 8 dest @ ''h''
         \<and> label = label_text dest
         \<and> label_step tok labels
             = Inr (tok \<lparr> immediate := PStr label \<rparr>, dict_set labels dest label)
         \<and> map_of (dict_set labels dest label) dest = Some label
         \<and> (0 \<le> dest \<and> dest < 2 ^ 32 \<longrightarrow> hex_digits_of 8 (nat dest) (format_0X 8 dest))))
   \<and> (linnear_sweep file = Some (Inr (output_list, file_labels))
        \<and> entry \<in> set output_list \<and> encoding (fst (snd entry)) = Some Enc_D
        \<longrightarrow> labelled file file_labels entry)"
proof (intro conjI impI)
  assume h: "disassemble data offset = Inr (tok, s) \<and> encoding tok = Some Enc_D"
  then have dis: "disassemble data offset = Inr (tok, s)"
    and etok: "encoding tok = Some Enc_D"
    by simp_all
  from disassemble_D [OF dis etok] obtain sz info where
    look: "lookup_record data (hd data) = Inr (Some (Some sz, info))"
    and enc: "info_encoding info = Enc_D"
    and w: "info_imm_size info = 1 \<or> info_imm_size info = 4"
    and s: "s = sz + info_imm_size info"
    and tok: "tok = Instruction_init
          \<lparr> mnemonic := info_mnemonic info, encoding := Some Enc_D,
            immediate :=
              PInt (from_bytes_little_signed (take (info_imm_size info) (drop sz data))
                    + (offset + int s)) \<rparr>"
    by blast
  let ?d = "from_bytes_little_signed (take (info_imm_size info) (drop sz data))"
  let ?dest = "offset + int s + ?d"
  let ?label = "''offset_'' @ format_0X 8 ?dest @ ''h''"
  from tok have imm: "immediate tok = PInt ?dest"
    by (simp add: Instruction_init_def add.commute)
  have lt: "?label = label_text ?dest"
    by (simp add: label_text_def)
  from etok imm have step: "label_step tok labels
      = Inr (tok \<lparr> immediate := PStr ?label \<rparr>, dict_set labels ?dest ?label)"
    by (simp add: label_step_def Let_def)
  have digits: "0 \<le> ?dest \<and> ?dest < 2 ^ 32 \<longrightarrow> hex_digits_of 8 (nat ?dest) (format_0X 8 ?dest)"
  proof
    assume "0 \<le> ?dest \<and> ?dest < 2 ^ 32"
    then have "0 \<le> ?dest" and "?dest < 16 ^ 8" by simp_all
    then show "hex_digits_of 8 (nat ?dest) (format_0X 8 ?dest)"
      by (intro format_0X_digits) simp_all
  qed
  from look enc w s imm lt step digits map_of_dict_set [of labels ?dest ?label]
  show "\<exists>sz info d dest label.
         lookup_record data (hd data) = Inr (Some (Some sz, info))
         \<and> info_encoding info = Enc_D
         \<and> (info_imm_size info = 1 \<or> info_imm_size info = 4)
         \<and> s = sz + info_imm_size info
         \<and> d = from_bytes_little_signed (take (info_imm_size info) (drop sz data))
         \<and> dest = offset + int s + d
         \<and> immediate tok = PInt dest
         \<and> label = ''offset_'' @ format_0X 8 dest @ ''h''
         \<and> label = label_text dest
         \<and> label_step tok labels
             = Inr (tok \<lparr> immediate := PStr label \<rparr>, dict_set labels dest label)
         \<and> map_of (dict_set labels dest label) dest = Some label
         \<and> (0 \<le> dest \<and> dest < 2 ^ 32 \<longrightarrow> hex_digits_of 8 (nat dest) (format_0X 8 dest))"
    by blast
next
  assume "linnear_sweep file = Some (Inr (output_list, file_labels))
        \<and> entry \<in> set output_list \<and> encoding (fst (snd entry)) = Some Enc_D"
  then show "labelled file file_labels entry"
    by (blast intro: linnear_sweep_labels)
qed

theorem relative_displacement_label_witness:
  "disassemble [0xE8, 5, 0, 0, 0] 0x10
     = Inr (Instruction_init
              \<lparr> mnemonic := Some ''call'', encoding := Some Enc_D, immediate := PInt 0x1A \<rparr>, 5)
   \<and> from_bytes_little_signed (take 4 (drop 1 [0xE8, 5, 0, 0, 0])) = 5
   \<and> label_step
        (Instruction_init
           \<lparr> mnemonic := Some ''call'', encoding := Some Enc_D, immediate := PInt 0x1A \<rparr>) []
       = Inr (Instruction_init
                \<lparr> mnemonic := Some ''call'', encoding := Some Enc_D,
                  immediate := PStr ''offset_0000001Ah'' \<rparr>,
              [(0x1A, ''offset_0000001Ah'')])
   \<and> hex_digits_of 8 0x1A ''0000001A''
   \<and> linnear_sweep [0x90, 0xE8, 5, 0, 0, 0]
       = Some (Inr ([(0, Instruction_init
                           \<lparr> mnemonic := Some ''nop'', encoding := Some Enc_ZO \<rparr>, [0x90]),
                     (1, Instruction_init
                           \<lparr> mnemonic := Some ''call'', encoding := Some Enc_D,
                             immediate := PStr ''offset_0000000Bh'' \<rparr>,
                         [0xE8, 5, 0, 0, 0])],
                    [(0xB, ''offset_0000000Bh'')]))
   \<and> labelled [0x90, 0xE8, 5, 0, 0, 0] [(0xB, ''offset_0000000Bh'')]
         (1, Instruction_init
               \<lparr> mnemonic := Some ''call'', encoding := Some Enc_D,
                 immediate := PStr ''offset_0000000Bh'' \<rparr>,
          [0xE8, 5, 0, 0, 0])"
proof -
  let ?tok = "Instruction_init
      \<lparr> mnemonic := Some ''call'', encoding := Some Enc_D, immediate := PInt 0x1A \<rparr>"
  let ?nop = "Instruction_init \<lparr> mnemonic := Some ''nop'', encoding := Some Enc_ZO \<rparr>"
  let ?call = "Instruction_init
      \<lparr> mnemonic := Some ''call'', encoding := Some Enc_D,
        immediate := PStr ''offset_0000000Bh'' \<rparr>"
  let ?entry = "(1 :: nat, ?call, [0xE8, 5, 0, 0, 0 :: byte])"
  have d: "disassemble [0xE8, 5, 0, 0, 0] 0x10 = Inr (?tok, 5)"
    by (simp add: eval_defs)
  have e: "encoding ?tok = Some Enc_D"
    by (simp add: Instruction_init_def)
  have f: "format_0X 8 0x1A = ''0000001A''"
    by (simp add: eval_defs)
  have v: "from_bytes_little_signed (take 4 (drop 1 [0xE8, 5, 0, 0, 0])) = 5"
    by (simp add: from_bytes_little_signed_def)
  have d0: "disassemble [0x90, 0xE8, 5, 0, 0, 0] 0 = Inr (?nop, 1)"
    by (simp add: eval_defs)
  have d1: "disassemble [0xE8, 5, 0, 0, 0] 1
      = Inr (Instruction_init
               \<lparr> mnemonic := Some ''call'', encoding := Some Enc_D, immediate := PInt 0xB \<rparr>, 5)"
    by (simp add: eval_defs)
  have f1: "format_0X 8 0xB = ''0000000B''"
    by (simp add: eval_defs)
  have sw: "linnear_sweep [0x90, 0xE8, 5, 0, 0, 0]
      = Some (Inr ([(0, ?nop, [0x90]), ?entry], [(0xB, ''offset_0000000Bh'')]))"
    by (simp add: linnear_sweep_def sweep_loop.simps d0 d1 f1 label_step_def slice_def
        Instruction_init_def Let_def)
  have mem: "?entry \<in> set [(0, ?nop, [0x90]), ?entry]" by simp
  have ee: "encoding (fst (snd ?entry)) = Some Enc_D"
    by (simp add: Instruction_init_def)
  from relative_displacement_label
         [of "[0xE8, 5, 0, 0, 0]" "0x10" ?tok 5 "[]" "[0x90, 0xE8, 5, 0, 0, 0]"
             "[(0, ?nop, [0x90]), ?entry]" "[(0xB, ''offset_0000000Bh'')]" ?entry]
       d e sw mem ee
  obtain dest where
    "immediate ?tok = PInt dest"
    and "label_step ?tok []
          = Inr (?tok \<lparr> immediate := PStr (''offset_'' @ format_0X 8 dest @ ''h'') \<rparr>,
                 dict_set [] dest (''offset_'' @ format_0X 8 dest @ ''h''))"
    and "0 \<le> dest \<and> dest < 2 ^ 32 \<longrightarrow> hex_digits_of 8 (nat dest) (format_0X 8 dest)"
    and lab: "labelled [0x90, 0xE8, 5, 0, 0, 0] [(0xB, ''offset_0000000Bh'')] ?entry"
    by blast
  then have "label_step ?tok []
          = Inr (?tok \<lparr> immediate := PStr (''offset_'' @ format_0X 8 0x1A @ ''h'') \<rparr>,
                 dict_set [] 0x1A (''offset_'' @ format_0X 8 0x1A @ ''h''))"
    and "hex_digits_of 8 (nat 0x1A) (format_0X 8 0x1A)"
    by (simp_all add: Instruction_init_def)
  with d v f sw lab show ?thesis by (simp add: Instruction_init_def)
qed


section \<open>Fixed-accumulator moves\<close>

text \<open>
  What the code does on the opcodes \<open>0xA1\<close> and \<open>0xA3\<close>, for any bytes and offset:
  the register is \<open>eax\<close> and the size is 5, but the immediate is read as signed and the
  offset and the instruction size are added to it, as for a relative displacement.
\<close>

lemma fixed_accumulator_decode:
  assumes "info_encoding info = Enc_FD \<or> info_encoding info = Enc_TD"
  shows "no_modrm_no_regadd_disassemble data sz info offset
     = (Instruction_init
          \<lparr> mnemonic := info_mnemonic info, encoding := Some (info_encoding info),
            reg := Some ''eax'',
            immediate := PInt (from_bytes_little_signed (take (info_imm_size info) data)
                               + (offset + int (sz + info_imm_size info))) \<rparr>,
        sz + info_imm_size info)"
  using assms by (auto simp: no_modrm_no_regadd_disassemble_def Let_def Instruction_init_def)

text \<open>
  C5 (the code departs from the claim). The bytes \<open>A1 10 00 00 00\<close> hold the absolute
  memory offset \<open>0x10\<close>. Decoded at file offset 0 the token stores \<open>0x10 + 0 + 5 = 21\<close>
  and renders as \<open>mov eax, 21\<close>; decoded at file offset \<open>0x100\<close> it stores 277. The
  store \<open>A3 10 00 00 00\<close> renders as \<open>mov 21, eax\<close>. The register is \<open>eax\<close> and
  the consumed size is 5, as the claim says.
\<close>

theorem fixed_accumulator_offset_added:
  "from_bytes_little [0x10, 0, 0, 0] = 0x10
   \<and> disassemble [0xA1, 0x10, 0, 0, 0] 0
       = Inr (Instruction_init
                \<lparr> mnemonic := Some ''mov'', encoding := Some Enc_FD, reg := Some ''eax'',
                  immediate := PInt 21 \<rparr>, 5)
   \<and> Instruction_str
         (Instruction_init
            \<lparr> mnemonic := Some ''mov'', encoding := Some Enc_FD, reg := Some ''eax'',
              immediate := PInt 21 \<rparr>) = Inr ''mov eax, 21''
   \<and> disassemble [0xA1, 0x10, 0, 0, 0] 0x100
       = Inr (Instruction_init
                \<lparr> mnemonic := Some ''mov'', encoding := Some Enc_FD, reg := Some ''eax'',
                  immediate := PInt 277 \<rparr>, 5)
   \<and> disassemble [0xA3, 0x10, 0, 0, 0] 0
       = Inr (Instruction_init
                \<lparr> mnemonic := Some ''mov'', encoding := Some Enc_TD, reg := Some ''eax'',
                  immediate := PInt 21 \<rparr>, 5)
   \<and> Instruction_str
         (Instruction_init
            \<lparr> mnemonic := Some ''mov'', encoding := Some Enc_TD, reg := Some ''eax'',
              immediate := PInt 21 \<rparr>) = Inr ''mov 21, eax''"
  by (simp add: eval_defs)

section \<open>Register-embedded decode\<close>

text \<open>
  The index into the register table is in range whenever the first byte is not zero:
  the record then comes from the one-byte lookup (index 0) or from the scan of
  \<open>REGADD_OPCODES\<close>.
\<close>

lemma from_bytes_big_2:
  "from_bytes_big (take 2 (b0 # b1 # rest)) = unat b0 * 256 + unat b1"
  by (simp add: from_bytes_big_def)

lemma lookup_record_two_byte:
  assumes "lookup_record data b0 = Inr (Some (Some 2, info))"
  shows "GLOBAL_INSTRUCTIONS_MAP (from_bytes_big (take 2 data)) = Some info
         \<and> GLOBAL_INSTRUCTIONS_MAP (unat b0) = None"
  using assms
  by (auto simp: lookup_record_def split: option.splits sum.splits)

lemma regadd_index_in_range:
  assumes look: "lookup_record data (hd data) = Inr (Some (opcode_size, info))"
    and enc: "info_encoding info = Enc_O \<or> info_encoding info = Enc_OI"
    and nz: "data \<noteq> []" "hd data \<noteq> 0"
  shows "0 \<le> int (unat (hd data)) - int (info_opcode info)
       \<and> int (unat (hd data)) - int (info_opcode info) < 8"
proof -
  consider (one) "opcode_size = Some 1" "GLOBAL_INSTRUCTIONS_MAP (unat (hd data)) = Some info"
    | (two) "opcode_size = Some 2"
    | (scan) "opcode_size = None" "regadd_check_opcode (unat (hd data)) = Inr (Some info)"
    using look by (auto simp: lookup_record_def split: option.splits sum.splits)
  then show ?thesis
  proof cases
    case one
    then have "info_opcode info = unat (hd data)"
      by (auto dest: table_record_ok simp: record_ok_def)
    then show ?thesis by simp
  next
    case two
    with look have m: "GLOBAL_INSTRUCTIONS_MAP (from_bytes_big (take 2 data)) = Some info"
      and none: "GLOBAL_INSTRUCTIONS_MAP (unat (hd data)) = None"
      by (auto dest: lookup_record_two_byte)
    with enc have "from_bytes_big (take 2 data) \<in> set REGADD_OPCODES"
      by (auto dest: table_record_ok simp: record_ok_def)
    then have small: "from_bytes_big (take 2 data) < 256"
      by (auto simp: REGADD_OPCODES_def)
    from nz(2) have "unat (hd data) \<noteq> 0"
      by (simp add: unat_eq_0)
    with nz(1) small m none have False
      by (cases data; cases "tl data") (auto simp: from_bytes_big_def)
    then show ?thesis ..
  next
    case scan
    then have "info_opcode info \<le> unat (hd data)"
      and "unat (hd data) < info_opcode info + 8"
      by (auto dest: regadd_check_opcode_Some)
    then show ?thesis by linarith
  qed
qed

text \<open>
  C9 (the code departs from the claim). On the bytes \<open>00 50\<close> the first byte is no
  one-byte key, but the first two bytes read big-endian give \<open>0x0050\<close>, the key of
  \<open>push\<close>: dispatch selects that register-embedded record, the index is
  \<open>0x00 - 0x50 = -80\<close>, outside \<open>[0, 8)\<close>, the register lookup raises and the step
  ends as the placeholder for \<open>0x00\<close>. The bytes \<open>50\<close>, \<open>53\<close> and \<open>58\<close> decode as the
  claim says.
\<close>

theorem regadd_index_out_of_range:
  "GLOBAL_INSTRUCTIONS_MAP 0x00 = None
   \<and> from_bytes_big (take 2 [0x00, 0x50]) = 0x50
   \<and> lookup_record [0x00, 0x50] 0x00
       = Inr (Some (Some 2, InstructionInfo_init 0x50 (Some ''push'') False Enc_O))
   \<and> int (unat (0x00 :: byte))
       - int (info_opcode (InstructionInfo_init 0x50 (Some ''push'') False Enc_O)) = - 80
   \<and> regadd_disassemble [0x00, 0x50] (InstructionInfo_init 0x50 (Some ''push'') False Enc_O)
       = Inl IndexError
   \<and> disassemble [0x00, 0x50] 0 = Inr (db_token 0x00, 1)
   \<and> bind_e (disassemble [0x50] 0) (\<lambda>(tok, n). Instruction_str tok) = Inr ''push eax''
   \<and> bind_e (disassemble [0x53] 0) (\<lambda>(tok, n). Instruction_str tok) = Inr ''push ebx''
   \<and> bind_e (disassemble [0x58] 0) (\<lambda>(tok, n). Instruction_str tok) = Inr ''pop eax''"
  by (simp add: eval_defs)


section \<open>Opcode extensions\<close>

lemma byte_at_Inr:
  assumes "i < length data"
  shows "byte_at data i = Inr (unat (data ! i))"
  using assms by (simp add: byte_at_def py_index_def bind_e_def)

lemma byte_at_Inl:
  assumes "length data \<le> i"
  shows "byte_at data i = Inl IndexError"
  using assms by (simp add: byte_at_def py_index_def bind_e_def)

lemma modrm_disassemble_bad_extension:
  assumes "data \<noteq> []"
    and "modrm_get_mnemonic (fst (snd (parse_modrm (unat (hd data))))) info = Inl e"
  shows "modrm_disassemble data opcode_size info = Inl e"
proof -
  from assms(1) have "byte_at data 0 = Inr (unat (hd data))"
    by (cases data) (simp_all add: byte_at_Inr)
  moreover obtain md rg r where "parse_modrm (unat (hd data)) = (md, rg, r)"
    by (cases "parse_modrm (unat (hd data))")
  ultimately show ?thesis
    using assms(2) by (simp add: modrm_disassemble_def bind_e_def)
qed

text \<open>
  C6. For a record with a (non-empty) extension mapping, a mapped selector gives the
  mapped mnemonic and an unmapped one raises the invalid-opcode-extension fault; when
  dispatch has selected such a record, the fault ends at the dispatch boundary as the
  one-byte placeholder. A record without an extension mapping gives its fixed mnemonic.
  No record of the table has an empty mapping (which the truth test of the code would
  treat as absent). Opcode \<open>0xFF\<close> gives \<open>inc\<close> for selector 0 and the fault for
  selector 3.
\<close>

theorem opcode_extension_resolution:
  "(\<forall>m s. info_extension_map info = Some m \<and> m \<noteq> [] \<and> map_of m reg_f = Some s
       \<longrightarrow> modrm_get_mnemonic reg_f info = Inr (Some s))
   \<and> (\<forall>m. info_extension_map info = Some m \<and> m \<noteq> [] \<and> map_of m reg_f = None
       \<longrightarrow> modrm_get_mnemonic reg_f info
            = Inl (Exception_INVALID_OPCODE_EXTENSION reg_f (info_opcode info))
          \<and> (\<forall>data offset sz.
                lookup_record data (hd data) = Inr (Some (Some sz, info))
                \<and> info_has_modrm info \<and> sz < length data
                \<and> fst (snd (parse_modrm (unat (data ! sz)))) = reg_f
                \<longrightarrow> disassemble data offset = Inr (db_token (hd data), 1)))
   \<and> (info_extension_map info = None
       \<longrightarrow> modrm_get_mnemonic reg_f info = Inr (info_mnemonic info))
   \<and> (\<forall>k. GLOBAL_INSTRUCTIONS_MAP k = Some info \<longrightarrow> info_extension_map info \<noteq> Some [])
   \<and> modrm_get_mnemonic 0 (the (GLOBAL_INSTRUCTIONS_MAP 0xFF)) = Inr (Some ''inc'')
   \<and> modrm_get_mnemonic 3 (the (GLOBAL_INSTRUCTIONS_MAP 0xFF))
       = Inl (Exception_INVALID_OPCODE_EXTENSION 3 0xFF)"
proof (intro conjI allI impI)
  fix m s
  assume "info_extension_map info = Some m \<and> m \<noteq> [] \<and> map_of m reg_f = Some s"
  then show "modrm_get_mnemonic reg_f info = Inr (Some s)"
    by (simp add: modrm_get_mnemonic_def)
next
  fix m
  assume "info_extension_map info = Some m \<and> m \<noteq> [] \<and> map_of m reg_f = None"
  then show "modrm_get_mnemonic reg_f info
      = Inl (Exception_INVALID_OPCODE_EXTENSION reg_f (info_opcode info))"
    by (simp add: modrm_get_mnemonic_def)
next
  fix m data offset sz
  assume m: "info_extension_map info = Some m \<and> m \<noteq> [] \<and> map_of m reg_f = None"
    and sel: "lookup_record data (hd data) = Inr (Some (Some sz, info))
        \<and> info_has_modrm info \<and> sz < length data
        \<and> fst (snd (parse_modrm (unat (data ! sz)))) = reg_f"
  from sel have ne: "data \<noteq> []" and rest: "drop sz data \<noteq> []"
    and hd: "hd (drop sz data) = data ! sz"
    by (auto simp: hd_drop_conv_nth)
  from m have "modrm_get_mnemonic reg_f info
      = Inl (Exception_INVALID_OPCODE_EXTENSION reg_f (info_opcode info))"
    by (simp add: modrm_get_mnemonic_def)
  with sel hd have "modrm_get_mnemonic (fst (snd (parse_modrm (unat (hd (drop sz data)))))) info
      = Inl (Exception_INVALID_OPCODE_EXTENSION reg_f (info_opcode info))"
    by simp
  with rest have "modrm_disassemble (drop sz data) sz info
      = Inl (Exception_INVALID_OPCODE_EXTENSION reg_f (info_opcode info))"
    by (rule modrm_disassemble_bad_extension)
  with sel have "decode_body data offset (Some sz) info
      = Inl (Exception_INVALID_OPCODE_EXTENSION reg_f (info_opcode info))"
    by (simp add: decode_body_def)
  with ne sel show "disassemble data offset = Inr (db_token (hd data), 1)"
    by (blast intro: disassemble_fault)
next
  assume "info_extension_map info = None"
  then show "modrm_get_mnemonic reg_f info = Inr (info_mnemonic info)"
    by (simp add: modrm_get_mnemonic_def)
next
  fix k
  assume "GLOBAL_INSTRUCTIONS_MAP k = Some info"
  then show "info_extension_map info \<noteq> Some []"
    by (auto dest: table_record_ok simp: record_ok_def)
next
  show "modrm_get_mnemonic 0 (the (GLOBAL_INSTRUCTIONS_MAP 0xFF)) = Inr (Some ''inc'')"
    by (simp add: eval_defs)
next
  show "modrm_get_mnemonic 3 (the (GLOBAL_INSTRUCTIONS_MAP 0xFF))
       = Inl (Exception_INVALID_OPCODE_EXTENSION 3 0xFF)"
    by (simp add: eval_defs)
qed

theorem opcode_extension_resolution_witness:
  "info_extension_map (the (GLOBAL_INSTRUCTIONS_MAP 0xFF))
     = Some [(0, ''inc''), (1, ''dec''), (2, ''call''), (4, ''jmp''), (6, ''push'')]
   \<and> map_of [(0 :: nat, ''inc''), (1, ''dec''), (2, ''call''), (4, ''jmp''), (6, ''push'')] 3
       = None
   \<and> lookup_record [0xFF, 0x18] (hd [0xFF, 0x18])
       = Inr (Some (Some 1, the (GLOBAL_INSTRUCTIONS_MAP 0xFF)))
   \<and> info_has_modrm (the (GLOBAL_INSTRUCTIONS_MAP 0xFF))
   \<and> fst (snd (parse_modrm (unat ([0xFF, 0x18 :: byte] ! 1)))) = 3
   \<and> modrm_get_mnemonic 3 (the (GLOBAL_INSTRUCTIONS_MAP 0xFF))
       = Inl (Exception_INVALID_OPCODE_EXTENSION 3 0xFF)
   \<and> disassemble [0xFF, 0x18] 0 = Inr (db_token 0xFF, 1)
   \<and> Instruction_str (db_token 0xFF) = Inr ''db 0xFF''
   \<and> map_of [(0 :: nat, ''inc''), (1, ''dec''), (2, ''call''), (4, ''jmp''), (6, ''push'')] 0
       = Some ''inc''
   \<and> modrm_get_mnemonic 0 (the (GLOBAL_INSTRUCTIONS_MAP 0xFF)) = Inr (Some ''inc'')
   \<and> info_extension_map (the (GLOBAL_INSTRUCTIONS_MAP 0x89)) = None
   \<and> modrm_get_mnemonic 0 (the (GLOBAL_INSTRUCTIONS_MAP 0x89)) = Inr (Some ''mov'')
   \<and> GLOBAL_INSTRUCTIONS_MAP 0xFF = Some (the (GLOBAL_INSTRUCTIONS_MAP 0xFF))
   \<and> info_extension_map (the (GLOBAL_INSTRUCTIONS_MAP 0xFF)) \<noteq> Some []"
proof -
  let ?info = "the (GLOBAL_INSTRUCTIONS_MAP 0xFF)"
  let ?mov = "the (GLOBAL_INSTRUCTIONS_MAP 0x89)"
  let ?m = "[(0 :: nat, ''inc''), (1, ''dec''), (2, ''call''), (4, ''jmp''), (6, ''push'')]"
  have m: "info_extension_map ?info = Some ?m" "?m \<noteq> []" "map_of ?m 3 = None"
    by (simp_all add: eval_defs)
  have sel: "lookup_record [0xFF, 0x18] (hd [0xFF, 0x18]) = Inr (Some (Some 1, ?info))"
    "info_has_modrm ?info" "(1::nat) < length [0xFF, 0x18 :: byte]"
    "fst (snd (parse_modrm (unat ([0xFF, 0x18 :: byte] ! 1)))) = 3"
    by (simp_all add: eval_defs)
  from opcode_extension_resolution [of ?info 3] m sel
  have "modrm_get_mnemonic 3 ?info
          = Inl (Exception_INVALID_OPCODE_EXTENSION 3 (info_opcode ?info))"
    and "disassemble [0xFF, 0x18] 0 = Inr (db_token (hd [0xFF, 0x18]), 1)"
    by blast+
  moreover have "info_opcode ?info = 0xFF"
    by (simp add: eval_defs)
  moreover have "Instruction_str (db_token 0xFF) = Inr ''db 0xFF''"
    by (simp add: eval_defs)
  ultimately have unmapped: "modrm_get_mnemonic 3 ?info
          = Inl (Exception_INVALID_OPCODE_EXTENSION 3 0xFF)"
    "disassemble [0xFF, 0x18] 0 = Inr (db_token 0xFF, 1)"
    "Instruction_str (db_token 0xFF) = Inr ''db 0xFF''"
    by simp_all
  have m0: "map_of ?m 0 = Some ''inc''" by simp
  from opcode_extension_resolution [of ?info 0] m(1,2) m0
  have mapped: "modrm_get_mnemonic 0 ?info = Inr (Some ''inc'')"
    by blast
  have none: "info_extension_map ?mov = None" and mn: "info_mnemonic ?mov = Some ''mov''"
    by (simp_all add: eval_defs)
  from opcode_extension_resolution [of ?mov 0] none mn
  have fixed: "modrm_get_mnemonic 0 ?mov = Inr (Some ''mov'')"
    by simp
  have key: "GLOBAL_INSTRUCTIONS_MAP 0xFF = Some ?info"
    by (simp add: eval_defs)
  from opcode_extension_resolution [of ?info 0] key
  have nonempty: "info_extension_map ?info \<noteq> Some []"
    by blast
  from m sel unmapped m0 mapped none fixed key nonempty show ?thesis by simp
qed


section \<open>Displacements of the addressing operand\<close>

lemma to_signed_range:
  assumes "b < 256"
  shows "- 128 \<le> to_signed b \<and> to_signed b < 128"
  using assms by (simp add: to_signed_def)

lemma disp8_text_shape:
  assumes "- 128 \<le> d" and "d < 128"
  shows "\<exists>hh. hex_digits_of 2 (nat \<bar>d\<bar>) hh
      \<and> disp8_text d
          = (if d = 0 then [] else if 0 < d then '' + 0x'' @ hh else '' - 0x'' @ hh)"
proof -
  from assms have "0 \<le> \<bar>d\<bar>" and "\<bar>d\<bar> < 16 ^ 2" by simp_all
  then have "hex_digits_of 2 (nat \<bar>d\<bar>) (format_0X 2 \<bar>d\<bar>)"
    by (intro format_0X_digits) simp_all
  moreover have "disp8_text d
      = (if d = 0 then [] else if 0 < d then '' + 0x'' @ format_0X 2 \<bar>d\<bar>
         else '' - 0x'' @ format_0X 2 \<bar>d\<bar>)"
    by (simp add: disp8_text_def)
  ultimately show ?thesis by blast
qed

lemma from_bytes_little_bound: "from_bytes_little bs < 256 ^ length bs"
proof (induction bs)
  case Nil
  show ?case by simp
next
  case (Cons b bs)
  have "unat b < 256" by (rule unat_byte_less)
  with Cons show ?case by simp
qed

lemma from_bytes_little_4:
  assumes "length bs \<le> 4"
  shows "int (from_bytes_little bs) < 16 ^ 8"
proof -
  have "from_bytes_little bs < 256 ^ length bs" by (rule from_bytes_little_bound)
  also from assms have "(256 :: nat) ^ length bs \<le> 256 ^ 4"
    by (intro power_increasing) simp_all
  finally show ?thesis by simp
qed

lemma dword_digits:
  assumes "length bs \<le> 4"
  shows "hex_digits_of 8 (from_bytes_little bs) (format_0X 8 (int (from_bytes_little bs)))"
proof -
  have "hex_digits_of 8 (nat (int (from_bytes_little bs)))
          (format_0X 8 (int (from_bytes_little bs)))"
    using from_bytes_little_4 [OF assms] by (intro format_0X_digits) simp_all
  then show ?thesis by simp
qed

lemma is_upper_hex_no_minus:
  assumes "is_upper_hex s"
  shows "CHR ''-'' \<notin> set s"
proof -
  have "CHR ''-'' \<notin> set ''0123456789ABCDEF''" by simp
  with assms show ?thesis
    unfolding is_upper_hex_def list_all_iff by blast
qed

lemma py_index_in_set:
  assumes "py_index xs i = Inr x"
  shows "x \<in> set xs"
proof -
  from assms consider "0 \<le> i" "i < int (length xs)" "x = xs ! nat i"
    | "i < 0" "- int (length xs) \<le> i" "x = xs ! nat (int (length xs) + i)"
    by (auto simp: py_index_def split: if_splits)
  then show ?thesis
  proof cases
    case 1
    then have "nat i < length xs" by simp
    with 1 show ?thesis by simp
  next
    case 2
    then have "nat (int (length xs) + i) < length xs" by simp
    with 2 show ?thesis by simp
  qed
qed

lemma register_name_no_minus:
  assumes "register_name i = Inr r"
  shows "CHR ''-'' \<notin> set r"
proof -
  from assms have "r \<in> set GLOBAL_REGISTER_NAMES"
    by (auto simp: register_name_def dest: py_index_in_set)
  then show ?thesis
    by (auto simp: GLOBAL_REGISTER_NAMES_def)
qed

lemma scale_no_minus: "CHR ''-'' \<notin> set (str_int (int (fst (parse_sib b))))"
proof -
  have "(b div 64) mod 4 < 4" by simp
  then consider "(b div 64) mod 4 = 0" | "(b div 64) mod 4 = 1"
    | "(b div 64) mod 4 = 2" | "(b div 64) mod 4 = 3"
    by linarith
  then show ?thesis
    by cases (simp_all add: parse_sib_def str_int_def dec_nat.simps dec_char_def)
qed

lemma sib_text_shape:
  assumes "sib_text tag (parse_sib b) = Inr t"
  shows "\<exists>pre. t = tag @ pre \<and> CHR ''-'' \<notin> set pre"
proof -
  obtain sc ix bs where p: "parse_sib b = (sc, ix, bs)"
    by (cases "parse_sib b")
  then have sc: "CHR ''-'' \<notin> set (str_int (int sc))"
    using scale_no_minus [of b] by simp
  show ?thesis
  proof (cases "ix = 4")
    case True
    with assms p obtain r where "register_name (int bs) = Inr r" and "t = tag @ r"
      by (auto simp: sib_text_def bind_e_def split: sum.splits)
    then show ?thesis by (blast dest: register_name_no_minus)
  next
    case False
    with assms p obtain i r where i: "register_name (int ix) = Inr i"
      and r: "register_name (int bs) = Inr r"
      and t: "t = tag @ (i @ ''*'' @ str_int (int sc) @ '' + '' @ r)"
      by (auto simp: sib_text_def bind_e_def split: sum.splits)
    from i r sc have "CHR ''-'' \<notin> set (i @ ''*'' @ str_int (int sc) @ '' + '' @ r)"
      by (auto dest: register_name_no_minus)
    with t show ?thesis by blast
  qed
qed

lemma modrm_mod1_shape:
  assumes "modrm_mod1 data rm_f = Inr (tx, extra)"
  shows "\<exists>pre. tx = ''[ byte '' @ pre
            @ disp8_text (to_signed (unat (data ! (if rm_f = 4 then 2 else 1)))) @ '' ]''
      \<and> (if rm_f = 4 then 2 else 1) < length data
      \<and> extra = (if rm_f = 4 then 2 else 1)"
proof (cases "rm_f = 4")
  case True
  with assms obtain b2 b1 t where b2: "byte_at data 2 = Inr b2"
    and "byte_at data 1 = Inr b1"
    and t: "sib_text ''[ byte '' (parse_sib b1) = Inr t"
    and tx: "tx = t @ disp8_text (to_signed b2) @ '' ]''" and e: "extra = 2"
    by (auto simp: modrm_mod1_def bind_e_def Let_def split: sum.splits)
  from b2 have len: "2 < length data" and "b2 = unat (data ! 2)"
    by (cases "2 < length data"; simp add: byte_at_Inr byte_at_Inl)+
  moreover from t obtain pre where "t = ''[ byte '' @ pre"
    by (blast dest: sib_text_shape)
  ultimately show ?thesis using True tx e by simp
next
  case False
  with assms obtain b1 r where b1: "byte_at data 1 = Inr b1"
    and tx: "tx = ''[ byte '' @ r @ disp8_text (to_signed b1) @ '' ]''" and e: "extra = 1"
    by (auto simp: modrm_mod1_def bind_e_def Let_def split: sum.splits)
  from b1 have "1 < length data" and "b1 = unat (data ! 1)"
    by (cases "1 < length data"; simp add: byte_at_Inr byte_at_Inl)+
  with False tx e show ?thesis by simp
qed

lemma modrm_mod2_shape:
  assumes "modrm_mod2 data rm_f = Inr (tx, extra)"
  shows "\<exists>pre. CHR ''-'' \<notin> set pre
      \<and> tx = ''[ dword '' @ pre
          @ (if from_bytes_little (if rm_f = 4 then slice 2 6 data else slice 1 5 data) = 0
             then []
             else '' + 0x'' @ format_0X 8
                (int (from_bytes_little (if rm_f = 4 then slice 2 6 data else slice 1 5 data))))
          @ '' ]''
      \<and> extra = (if rm_f = 4 then 5 else 4)"
proof (cases "rm_f = 4")
  case True
  with assms obtain b1 t where "byte_at data 1 = Inr b1"
    and t: "sib_text ''[ dword '' (parse_sib b1) = Inr t"
    and tx: "tx = (if from_bytes_little (slice 2 6 data) \<noteq> 0
                     then t @ '' + 0x'' @ format_0X 8 (int (from_bytes_little (slice 2 6 data)))
                     else t) @ '' ]''"
    and e: "extra = 5"
    by (auto simp: modrm_mod2_def bind_e_def Let_def split: sum.splits)
  from t obtain pre where "t = ''[ dword '' @ pre" and "CHR ''-'' \<notin> set pre"
    by (blast dest: sib_text_shape)
  with True tx e show ?thesis by auto
next
  case False
  with assms obtain r where r: "register_name (int rm_f) = Inr r"
    and tx: "tx = (if from_bytes_little (slice 1 5 data) \<noteq> 0
                     then ''[ dword '' @ r @ '' + 0x''
                          @ format_0X 8 (int (from_bytes_little (slice 1 5 data)))
                     else ''[ dword '' @ r) @ '' ]''"
    and e: "extra = 4"
    by (auto simp: modrm_mod2_def bind_e_def Let_def split: sum.splits)
  from r have "CHR ''-'' \<notin> set r" by (rule register_name_no_minus)
  with False tx e show ?thesis by auto
qed

text \<open>
  What \<open>modrm_disassemble\<close> returns when it returns: the operand text and size come
  from the branch for the mode of the descriptor byte, which is one of the permitted
  modes of the record.
\<close>

lemma modrm_disassemble_operand:
  assumes "modrm_disassemble data opcode_size info = Inr (tok, n)"
  shows "\<exists>mod_f reg_f rm_f tx extra.
      data \<noteq> [] \<and> parse_modrm (unat (hd data)) = (mod_f, reg_f, rm_f)
      \<and> mod_f \<in> set (info_addressing_modes info)
      \<and> modrm_operand data mod_f rm_f = Inr (tx, extra)
      \<and> rm tok = Some tx
      \<and> n = opcode_size + 1 + extra
            + (if info_encoding info = Enc_MI then info_imm_size info else 0)"
proof -
  from assms obtain b0 where b0: "byte_at data 0 = Inr b0"
    by (auto simp: modrm_disassemble_def bind_e_def split: sum.splits)
  then have ne: "data \<noteq> []" and b: "b0 = unat (hd data)"
    by (cases data; simp add: byte_at_Inr byte_at_Inl)+
  obtain mod_f reg_f rm_f where p: "parse_modrm (unat (hd data)) = (mod_f, reg_f, rm_f)"
    by (cases "parse_modrm (unat (hd data))")
  from assms b0 b p obtain md tx extra where
    md: "modrm_get_addressing_mode mod_f info = Inr md"
    and op: "modrm_operand data md rm_f = Inr (tx, extra)"
    and tok: "rm tok = Some tx"
    and n: "n = opcode_size + 1 + extra
            + (if info_encoding info = Enc_MI then info_imm_size info else 0)"
    by (auto simp: modrm_disassemble_def bind_e_def Let_def Instruction_init_def
        split: sum.splits if_splits)
  from md have "md = mod_f" and "mod_f \<in> set (info_addressing_modes info)"
    by (auto simp: modrm_get_addressing_mode_def split: if_splits)
  with ne p op tok n show ?thesis by blast
qed


lemma register_name_nth:
  assumes "register_name (int i) = Inr r"
  shows "r = GLOBAL_REGISTER_NAMES ! i"
  using assms by (auto simp: register_name_def py_index_def split: if_splits)

lemma scale_text: "str_int (int (fst (parse_sib b))) = [dec_char (fst (parse_sib b))]"
proof -
  have "(b div 64) mod 4 < 4" by simp
  then consider "(b div 64) mod 4 = 0" | "(b div 64) mod 4 = 1"
    | "(b div 64) mod 4 = 2" | "(b div 64) mod 4 = 3"
    by linarith
  then show ?thesis
    by cases (simp_all add: parse_sib_def str_int_def dec_nat.simps)
qed

lemma sib_text_exact:
  assumes "sib_text tag (parse_sib b) = Inr t"
  shows "t = tag @ sib_base_text b"
proof -
  obtain sc ix bs where p: "parse_sib b = (sc, ix, bs)"
    by (cases "parse_sib b")
  then have sc: "str_int (int sc) = [dec_char sc]"
    using scale_text [of b] by simp
  show ?thesis
  proof (cases "ix = 4")
    case True
    with assms p obtain r where "register_name (int bs) = Inr r" and "t = tag @ r"
      by (auto simp: sib_text_def bind_e_def split: sum.splits)
    with True p show ?thesis
      by (auto simp: sib_base_text_def dest: register_name_nth)
  next
    case False
    with assms p obtain i r where i: "register_name (int ix) = Inr i"
      and r: "register_name (int bs) = Inr r"
      and t: "t = tag @ (i @ ''*'' @ str_int (int sc) @ '' + '' @ r)"
      by (auto simp: sib_text_def bind_e_def split: sum.splits)
    from i have "i = GLOBAL_REGISTER_NAMES ! ix" by (rule register_name_nth)
    moreover from r have "r = GLOBAL_REGISTER_NAMES ! bs" by (rule register_name_nth)
    ultimately show ?thesis
      using False p t sc by (simp add: sib_base_text_def)
  qed
qed

lemma modrm_mod1_exact:
  assumes "modrm_mod1 data rm_f = Inr (tx, extra)"
  shows "tx = ''[ byte '' @ operand_base data rm_f
            @ disp8_text (to_signed (unat (data ! (if rm_f = 4 then 2 else 1)))) @ '' ]''"
proof (cases "rm_f = 4")
  case True
  with assms obtain b2 b1 t where b2: "byte_at data 2 = Inr b2"
    and b1: "byte_at data 1 = Inr b1"
    and t: "sib_text ''[ byte '' (parse_sib b1) = Inr t"
    and tx: "tx = t @ disp8_text (to_signed b2) @ '' ]''"
    by (auto simp: modrm_mod1_def bind_e_def Let_def split: sum.splits)
  from b2 have "b2 = unat (data ! 2)"
    by (cases "2 < length data"; simp add: byte_at_Inr byte_at_Inl)
  moreover from b1 have "b1 = unat (data ! 1)"
    by (cases "1 < length data"; simp add: byte_at_Inr byte_at_Inl)
  moreover from t have "t = ''[ byte '' @ sib_base_text b1"
    by (rule sib_text_exact)
  ultimately show ?thesis using True tx by (simp add: operand_base_def)
next
  case False
  with assms obtain b1 r where b1: "byte_at data 1 = Inr b1"
    and r: "register_name (int rm_f) = Inr r"
    and tx: "tx = ''[ byte '' @ r @ disp8_text (to_signed b1) @ '' ]''"
    by (auto simp: modrm_mod1_def bind_e_def Let_def split: sum.splits)
  from b1 have "b1 = unat (data ! 1)"
    by (cases "1 < length data"; simp add: byte_at_Inr byte_at_Inl)
  moreover from r have "r = GLOBAL_REGISTER_NAMES ! rm_f" by (rule register_name_nth)
  ultimately show ?thesis using False tx by (simp add: operand_base_def)
qed

lemma modrm_mod2_exact:
  assumes "modrm_mod2 data rm_f = Inr (tx, extra)"
  shows "tx = ''[ dword '' @ operand_base data rm_f
          @ (if from_bytes_little (if rm_f = 4 then slice 2 6 data else slice 1 5 data) = 0
             then []
             else '' + 0x'' @ format_0X 8
                (int (from_bytes_little (if rm_f = 4 then slice 2 6 data else slice 1 5 data))))
          @ '' ]''"
proof (cases "rm_f = 4")
  case True
  with assms obtain b1 t where b1: "byte_at data 1 = Inr b1"
    and t: "sib_text ''[ dword '' (parse_sib b1) = Inr t"
    and tx: "tx = (if from_bytes_little (slice 2 6 data) \<noteq> 0
                     then t @ '' + 0x'' @ format_0X 8 (int (from_bytes_little (slice 2 6 data)))
                     else t) @ '' ]''"
    by (auto simp: modrm_mod2_def bind_e_def Let_def split: sum.splits)
  from b1 have "b1 = unat (data ! 1)"
    by (cases "1 < length data"; simp add: byte_at_Inr byte_at_Inl)
  moreover from t have "t = ''[ dword '' @ sib_base_text b1"
    by (rule sib_text_exact)
  ultimately show ?thesis using True tx by (simp add: operand_base_def)
next
  case False
  with assms obtain r where r: "register_name (int rm_f) = Inr r"
    and tx: "tx = (if from_bytes_little (slice 1 5 data) \<noteq> 0
                     then ''[ dword '' @ r @ '' + 0x''
                          @ format_0X 8 (int (from_bytes_little (slice 1 5 data)))
                     else ''[ dword '' @ r) @ '' ]''"
    by (auto simp: modrm_mod2_def bind_e_def Let_def split: sum.splits)
  from r have "r = GLOBAL_REGISTER_NAMES ! rm_f" by (rule register_name_nth)
  with False tx show ?thesis by (simp add: operand_base_def)
qed

text \<open>
  C7. When the addressing-byte decode returns a token, the operand text is fixed
  character by character. In mode 1 it is \<open>[ byte\<close>, the base of the operand, the
  displacement part and \<open>]\<close>, where the displacement part of the signed displacement
  byte \<open>d\<close> is empty for \<open>d = 0\<close> and otherwise a sign, \<open>+\<close> for a positive and
  \<open>-\<close> for a negative \<open>d\<close>, followed by \<open>0x\<close> and exactly two upper-case hexadecimal
  digits of \<open>|d|\<close>. In mode 2 it is \<open>[ dword\<close>, the base of the operand, the
  displacement part and \<open>]\<close>, where the displacement part of the unsigned
  little-endian displacement \<open>u\<close> is empty for \<open>u = 0\<close> and otherwise \<open>+ 0x\<close> and
  exactly eight upper-case hexadecimal digits of \<open>u\<close>, and the whole text holds no
  minus sign. The base of the operand is register names and a scale digit only, so a
  zero displacement leaves no trace in the text.
\<close>

theorem displacement_rendering:
  assumes "modrm_disassemble data opcode_size info = Inr (tok, n)"
  shows "\<exists>mod_f reg_f rm_f.
      parse_modrm (unat (hd data)) = (mod_f, reg_f, rm_f)
      \<and> (mod_f = 1 \<longrightarrow>
           (\<exists>d hh.
              d = to_signed (unat (data ! (if rm_f = 4 then 2 else 1)))
              \<and> hex_digits_of 2 (nat \<bar>d\<bar>) hh
              \<and> rm tok = Some (''[ byte '' @ operand_base data rm_f
                   @ (if d = 0 then [] else if 0 < d then '' + 0x'' @ hh else '' - 0x'' @ hh)
                   @ '' ]'')
              \<and> (d = 0 \<longrightarrow> rm tok = Some (''[ byte '' @ operand_base data rm_f @ '' ]''))))
      \<and> (mod_f = 2 \<longrightarrow>
           (\<exists>u hh.
              u = from_bytes_little (if rm_f = 4 then slice 2 6 data else slice 1 5 data)
              \<and> hex_digits_of 8 u hh
              \<and> rm tok = Some (''[ dword '' @ operand_base data rm_f
                   @ (if u = 0 then [] else '' + 0x'' @ hh) @ '' ]'')
              \<and> (u = 0 \<longrightarrow> rm tok = Some (''[ dword '' @ operand_base data rm_f @ '' ]''))
              \<and> CHR ''-'' \<notin> set (''[ dword '' @ operand_base data rm_f
                   @ (if u = 0 then [] else '' + 0x'' @ hh) @ '' ]'')))"
proof -
  from modrm_disassemble_operand [OF assms] obtain mod_f reg_f rm_f tx extra where
    p: "parse_modrm (unat (hd data)) = (mod_f, reg_f, rm_f)"
    and op: "modrm_operand data mod_f rm_f = Inr (tx, extra)"
    and rm: "rm tok = Some tx"
    by blast
  let ?base = "operand_base data rm_f"
  let ?one = "\<exists>d hh.
        d = to_signed (unat (data ! (if rm_f = 4 then 2 else 1)))
        \<and> hex_digits_of 2 (nat \<bar>d\<bar>) hh
        \<and> rm tok = Some (''[ byte '' @ ?base
             @ (if d = 0 then [] else if 0 < d then '' + 0x'' @ hh else '' - 0x'' @ hh)
             @ '' ]'')
        \<and> (d = 0 \<longrightarrow> rm tok = Some (''[ byte '' @ ?base @ '' ]''))"
  let ?two = "\<exists>u hh.
        u = from_bytes_little (if rm_f = 4 then slice 2 6 data else slice 1 5 data)
        \<and> hex_digits_of 8 u hh
        \<and> rm tok = Some (''[ dword '' @ ?base
             @ (if u = 0 then [] else '' + 0x'' @ hh) @ '' ]'')
        \<and> (u = 0 \<longrightarrow> rm tok = Some (''[ dword '' @ ?base @ '' ]''))
        \<and> CHR ''-'' \<notin> set (''[ dword '' @ ?base
             @ (if u = 0 then [] else '' + 0x'' @ hh) @ '' ]'')"
  have one: ?one if "mod_f = 1"
  proof -
    let ?d = "to_signed (unat (data ! (if rm_f = 4 then 2 else 1)))"
    from that op have "modrm_mod1 data rm_f = Inr (tx, extra)"
      by (simp add: modrm_operand_def)
    then have tx: "tx = ''[ byte '' @ ?base @ disp8_text ?d @ '' ]''"
      by (rule modrm_mod1_exact)
    have "unat (data ! (if rm_f = 4 then 2 else 1)) < 256"
      by (rule unat_byte_less)
    then have "- 128 \<le> ?d" and "?d < 128"
      using to_signed_range by blast+
    then obtain hh where hh: "hex_digits_of 2 (nat \<bar>?d\<bar>) hh"
      and eq: "disp8_text ?d
            = (if ?d = 0 then [] else if 0 < ?d then '' + 0x'' @ hh else '' - 0x'' @ hh)"
      using disp8_text_shape by blast
    have full: "rm tok = Some (''[ byte '' @ ?base
             @ (if ?d = 0 then [] else if 0 < ?d then '' + 0x'' @ hh else '' - 0x'' @ hh)
             @ '' ]'')"
      by (simp only: rm tx eq)
    then have z: "?d = 0 \<longrightarrow> rm tok = Some (''[ byte '' @ ?base @ '' ]'')"
      by simp
    show ?thesis
      using hh full z
      by - (rule exI [of _ ?d], rule exI [of _ hh], intro conjI; (rule refl | assumption))
  qed
  have two: ?two if "mod_f = 2"
  proof -
    let ?bs = "if rm_f = 4 then slice 2 6 data else slice 1 5 data"
    let ?u = "from_bytes_little ?bs"
    let ?hh = "format_0X 8 (int ?u)"
    from that op have m2: "modrm_mod2 data rm_f = Inr (tx, extra)"
      by (simp add: modrm_operand_def)
    then have tx: "tx = ''[ dword '' @ ?base @ (if ?u = 0 then [] else '' + 0x'' @ ?hh) @ '' ]''"
      by (rule modrm_mod2_exact)
    from m2 obtain pre where pre: "CHR ''-'' \<notin> set pre"
      and tx': "tx = ''[ dword '' @ pre @ (if ?u = 0 then [] else '' + 0x'' @ ?hh) @ '' ]''"
      by (blast dest: modrm_mod2_shape)
    from tx tx' have "pre = ?base" by simp
    with pre have base: "CHR ''-'' \<notin> set ?base" by simp
    have "length ?bs \<le> 4" by (simp add: slice_def)
    then have d: "hex_digits_of 8 ?u ?hh" by (rule dword_digits)
    then have "CHR ''-'' \<notin> set ?hh"
      by (simp add: hex_digits_of_def is_upper_hex_no_minus)
    with base have nm: "CHR ''-'' \<notin> set (''[ dword '' @ ?base
        @ (if ?u = 0 then [] else '' + 0x'' @ ?hh) @ '' ]'')"
      by simp
    have full: "rm tok = Some (''[ dword '' @ ?base
        @ (if ?u = 0 then [] else '' + 0x'' @ ?hh) @ '' ]'')"
      by (simp only: rm tx)
    then have z: "?u = 0 \<longrightarrow> rm tok = Some (''[ dword '' @ ?base @ '' ]'')"
      by simp
    show ?thesis
      using d full z nm
      by - (rule exI [of _ ?u], rule exI [of _ ?hh], intro conjI; (rule refl | assumption))
  qed
  have one': "mod_f = 1 \<longrightarrow> ?one" by (rule impI) (rule one)
  have two': "mod_f = 2 \<longrightarrow> ?two" by (rule impI) (rule two)
  show ?thesis
    using p one' two'
    by - (rule exI [of _ mod_f], rule exI [of _ reg_f], rule exI [of _ rm_f],
        intro conjI; assumption)
qed

theorem displacement_rendering_witness:
  "disassemble [0x8B, 0x40, 0x00] 0
     = Inr (Instruction_init
              \<lparr> mnemonic := Some ''mov'', encoding := Some Enc_RM, reg := Some ''eax'',
                rm := Some ''[ byte eax ]'' \<rparr>, 3)
   \<and> Instruction_str
        (Instruction_init
           \<lparr> mnemonic := Some ''mov'', encoding := Some Enc_RM, reg := Some ''eax'',
             rm := Some ''[ byte eax ]'' \<rparr>) = Inr ''mov eax, [ byte eax ]''
   \<and> modrm_disassemble [0x40, 0x00] 1 (the (GLOBAL_INSTRUCTIONS_MAP 0x8B))
       = Inr (Instruction_init
                \<lparr> mnemonic := Some ''mov'', encoding := Some Enc_RM, reg := Some ''eax'',
                  rm := Some ''[ byte eax ]'' \<rparr>, 3)
   \<and> parse_modrm (unat (hd [0x40, 0x00 :: byte])) = (1, 0, 0)
   \<and> to_signed (unat ([0x40, 0x00 :: byte] ! 1)) = 0
   \<and> operand_base [0x40, 0x00] 0 = ''eax''
   \<and> modrm_disassemble [0x40, 0xF0] 1 (the (GLOBAL_INSTRUCTIONS_MAP 0x8B))
       = Inr (Instruction_init
                \<lparr> mnemonic := Some ''mov'', encoding := Some Enc_RM, reg := Some ''eax'',
                  rm := Some ''[ byte eax - 0x10 ]'' \<rparr>, 3)
   \<and> parse_modrm (unat (hd [0x40, 0xF0 :: byte])) = (1, 0, 0)
   \<and> to_signed (unat ([0x40, 0xF0 :: byte] ! 1)) = - 16
   \<and> hex_digits_of 2 16 ''10''
   \<and> modrm_disassemble [0x80, 0x00, 0x00, 0x00, 0xFF] 1 (the (GLOBAL_INSTRUCTIONS_MAP 0x8B))
       = Inr (Instruction_init
                \<lparr> mnemonic := Some ''mov'', encoding := Some Enc_RM, reg := Some ''eax'',
                  rm := Some ''[ dword eax + 0xFF000000 ]'' \<rparr>, 6)
   \<and> parse_modrm (unat (hd [0x80, 0x00, 0x00, 0x00, 0xFF :: byte])) = (2, 0, 0)
   \<and> from_bytes_little (slice 1 5 [0x80, 0x00, 0x00, 0x00, 0xFF]) = 0xFF000000
   \<and> hex_digits_of 8 0xFF000000 ''FF000000''
   \<and> CHR ''-'' \<notin> set ''[ dword eax + 0xFF000000 ]''
   \<and> modrm_disassemble [0x84, 0x88, 0x00, 0x00, 0x00, 0x00] 1
         (the (GLOBAL_INSTRUCTIONS_MAP 0x8B))
       = Inr (Instruction_init
                \<lparr> mnemonic := Some ''mov'', encoding := Some Enc_RM, reg := Some ''eax'',
                  rm := Some ''[ dword ecx*4 + eax ]'' \<rparr>, 7)
   \<and> parse_modrm (unat (hd [0x84, 0x88, 0x00, 0x00, 0x00, 0x00 :: byte])) = (2, 0, 4)
   \<and> from_bytes_little (slice 2 6 [0x84, 0x88, 0x00, 0x00, 0x00, 0x00]) = 0
   \<and> operand_base [0x84, 0x88, 0x00, 0x00, 0x00, 0x00] 4 = ''ecx*4 + eax''"
proof -
  let ?info = "the (GLOBAL_INSTRUCTIONS_MAP 0x8B)"
  let ?t0 = "Instruction_init
      \<lparr> mnemonic := Some ''mov'', encoding := Some Enc_RM, reg := Some ''eax'',
        rm := Some ''[ byte eax ]'' \<rparr>"
  let ?t1 = "Instruction_init
      \<lparr> mnemonic := Some ''mov'', encoding := Some Enc_RM, reg := Some ''eax'',
        rm := Some ''[ byte eax - 0x10 ]'' \<rparr>"
  let ?t2 = "Instruction_init
      \<lparr> mnemonic := Some ''mov'', encoding := Some Enc_RM, reg := Some ''eax'',
        rm := Some ''[ dword eax + 0xFF000000 ]'' \<rparr>"
  let ?t3 = "Instruction_init
      \<lparr> mnemonic := Some ''mov'', encoding := Some Enc_RM, reg := Some ''eax'',
        rm := Some ''[ dword ecx*4 + eax ]'' \<rparr>"
  have ex: "disassemble [0x8B, 0x40, 0x00] 0 = Inr (?t0, 3)"
    by (simp add: eval_defs)
  have str: "Instruction_str ?t0 = Inr ''mov eax, [ byte eax ]''"
    by (simp add: eval_defs)
  have m0: "modrm_disassemble [0x40, 0x00] 1 ?info = Inr (?t0, 3)"
    by (simp add: eval_defs)
  have p0: "parse_modrm (unat (hd [0x40, 0x00 :: byte])) = (1, 0, 0)"
    by (simp add: parse_modrm_def)
  have d0: "to_signed (unat ([0x40, 0x00 :: byte] ! 1)) = 0"
    by (simp add: to_signed_def)
  have b0: "operand_base [0x40, 0x00] 0 = ''eax''"
    by (simp add: operand_base_def GLOBAL_REGISTER_NAMES_def)
  have m1: "modrm_disassemble [0x40, 0xF0] 1 ?info = Inr (?t1, 3)"
    by (simp add: eval_defs)
  have p1: "parse_modrm (unat (hd [0x40, 0xF0 :: byte])) = (1, 0, 0)"
    by (simp add: parse_modrm_def)
  have d1: "to_signed (unat ([0x40, 0xF0 :: byte] ! 1)) = - 16"
    by (simp add: to_signed_def)
  have b1: "operand_base [0x40, 0xF0] 0 = ''eax''"
    by (simp add: operand_base_def GLOBAL_REGISTER_NAMES_def)
  have m2: "modrm_disassemble [0x80, 0x00, 0x00, 0x00, 0xFF] 1 ?info = Inr (?t2, 6)"
    by (simp add: eval_defs)
  have p2: "parse_modrm (unat (hd [0x80, 0x00, 0x00, 0x00, 0xFF :: byte])) = (2, 0, 0)"
    by (simp add: parse_modrm_def)
  have u2: "from_bytes_little (slice 1 5 [0x80, 0x00, 0x00, 0x00, 0xFF]) = 0xFF000000"
    by (simp add: slice_def)
  have m3: "modrm_disassemble [0x84, 0x88, 0x00, 0x00, 0x00, 0x00] 1 ?info = Inr (?t3, 7)"
    by (simp add: eval_defs)
  have p3: "parse_modrm (unat (hd [0x84, 0x88, 0x00, 0x00, 0x00, 0x00 :: byte])) = (2, 0, 4)"
    by (simp add: parse_modrm_def)
  have u3: "from_bytes_little (slice 2 6 [0x84, 0x88, 0x00, 0x00, 0x00, 0x00]) = 0"
    by (simp add: slice_def)
  from displacement_rendering [OF m0] p0 d0
  have "rm ?t0 = Some (''[ byte '' @ operand_base [0x40, 0x00] 0 @ '' ]'')"
    by auto
  then have z1: "operand_base [0x40, 0x00] 0 = ''eax''"
    by (simp add: Instruction_init_def)
  from displacement_rendering [OF m1] p1 d1 obtain hh where
    "hex_digits_of 2 (nat \<bar>- 16\<bar>) hh"
    and "rm ?t1 = Some (''[ byte '' @ operand_base [0x40, 0xF0] 0 @ '' - 0x'' @ hh @ '' ]'')"
    by auto
  then have h1: "hex_digits_of 2 16 ''10''"
    by (simp add: Instruction_init_def b1)
  from displacement_rendering [OF m2] p2 u2 obtain hh' where
    "hex_digits_of 8 0xFF000000 hh'"
    and "rm ?t2 = Some (''[ dword '' @ operand_base [0x80, 0x00, 0x00, 0x00, 0xFF] 0
                          @ '' + 0x'' @ hh' @ '' ]'')"
    and "CHR ''-'' \<notin> set (''[ dword '' @ operand_base [0x80, 0x00, 0x00, 0x00, 0xFF] 0
                          @ '' + 0x'' @ hh' @ '' ]'')"
    by auto
  then have h2: "CHR ''-'' \<notin> set ''[ dword eax + 0xFF000000 ]''"
    by (simp add: Instruction_init_def)
  have h3: "hex_digits_of 8 0xFF000000 ''FF000000''"
    by (simp add: hex_digits_of_def is_upper_hex_def hex_value_def hex_digit_value_def)
  from displacement_rendering [OF m3] p3 u3
  have "rm ?t3 = Some (''[ dword '' @ operand_base [0x84, 0x88, 0x00, 0x00, 0x00, 0x00] 4
                         @ '' ]'')"
    by auto
  then have z3: "operand_base [0x84, 0x88, 0x00, 0x00, 0x00, 0x00] 4 = ''ecx*4 + eax''"
    by (simp add: Instruction_init_def)
  from ex str m0 p0 d0 z1 m1 p1 d1 h1 m2 p2 u2 h3 h2 m3 p3 u3 z3 show ?thesis by blast
qed


section \<open>Decimal rendering\<close>

lemma below_10_cases:
  assumes "d < (10::nat)"
  shows "d = 0 \<or> d = 1 \<or> d = 2 \<or> d = 3 \<or> d = 4 \<or> d = 5 \<or> d = 6 \<or> d = 7 \<or> d = 8 \<or> d = 9"
  using assms by arith

lemma dec_char_digit: "d < 10 \<Longrightarrow> dec_char d \<in> set ''0123456789''"
  by (drule below_10_cases) (elim disjE; simp add: dec_char_def)

lemma dec_digit_value_dec_char: "d < 10 \<Longrightarrow> dec_digit_value (dec_char d) = d"
  by (drule below_10_cases) (elim disjE; simp add: dec_char_def dec_digit_value_def)

lemma dec_value_snoc: "dec_value (s @ [c]) = dec_value s * 10 + dec_digit_value c"
  by (simp add: dec_value_def)

lemma dec_nat_digits: "is_dec_digits (dec_nat n) \<and> dec_value (dec_nat n) = n"
proof (induction n rule: dec_nat.induct)
  case (1 n)
  show ?case
  proof (cases "n < 10")
    case True
    then show ?thesis
      using dec_char_digit [of n]
      by (subst (1 2) dec_nat.simps)
        (simp add: is_dec_digits_def dec_value_def dec_digit_value_dec_char)
  next
    case False
    have "dec_char (n mod 10) \<in> set ''0123456789''"
      by (rule dec_char_digit) simp
    with False 1 show ?thesis
      by (subst (1 2) dec_nat.simps)
        (simp add: is_dec_digits_def dec_value_snoc dec_digit_value_dec_char)
  qed
qed

lemma str_int_decimal: "decimal_of i (str_int i)"
  using dec_nat_digits [of "nat i"] dec_nat_digits [of "nat (- i)"]
  by (simp add: decimal_of_def str_int_def)

section \<open>Immediate-only instructions\<close>

lemma disassemble_no_modrm:
  assumes "data \<noteq> []"
    and "lookup_record data (hd data) = Inr (Some (Some sz, info))"
    and "\<not> info_has_modrm info"
    and "info_encoding info \<noteq> Enc_O" and "info_encoding info \<noteq> Enc_OI"
  shows "disassemble data offset
     = Inr (no_modrm_no_regadd_disassemble (drop sz data) sz info offset)"
  using assms by (simp add: disassemble_def py_index_0 try_decode_def decode_body_def)

lemma lookup_record_I:
  assumes "lookup_record data b0 = Inr (Some (opcode_size, info))"
    and "info_encoding info = Enc_I"
  shows "\<not> info_has_modrm info \<and> (\<exists>sz. opcode_size = Some sz)"
proof -
  from assms(1) obtain k where "GLOBAL_INSTRUCTIONS_MAP k = Some info"
    by (blast dest: lookup_record_in_table)
  with assms(2) have "\<not> info_has_modrm info"
    by (auto dest: table_record_ok simp: record_ok_def)
  moreover have "\<exists>sz. opcode_size = Some sz"
  proof (cases opcode_size)
    case None
    with assms(1) have "regadd_check_opcode (unat b0) = Inr (Some info)"
      by (auto simp: lookup_record_def split: option.splits sum.splits)
    with assms(2) show ?thesis by (auto dest: regadd_check_opcode_Some)
  next
    case (Some sz)
    then show ?thesis by simp
  qed
  ultimately show ?thesis by simp
qed

text \<open>
  C8. When dispatch selects an immediate-only record (encoding I), the step consumes
  the opcode and the declared width, and the immediate is rendered by width: width 4
  as \<open>0x\<close> and exactly eight upper-case hexadecimal digits of the unsigned value,
  width 2 as \<open>0x\<close> and exactly four, any other width as the plain signed decimal
  numeral of the signed value. The token renders as the mnemonic, a space and that
  text.
\<close>

theorem immediate_only_rendering:
  assumes "data \<noteq> []"
    and "lookup_record data (hd data) = Inr (Some (opcode_size, info))"
    and "info_encoding info = Enc_I"
  shows "\<exists>sz tok imm.
      opcode_size = Some sz
      \<and> disassemble data offset = Inr (tok, sz + info_imm_size info)
      \<and> immediate tok = PStr imm
      \<and> Instruction_str tok = Inr (str_opt (info_mnemonic info) @ '' '' @ imm)
      \<and> (info_imm_size info = 4 \<longrightarrow>
           (\<exists>hh. imm = ''0x'' @ hh
              \<and> hex_digits_of 8 (from_bytes_little (take 4 (drop sz data))) hh))
      \<and> (info_imm_size info = 2 \<longrightarrow>
           (\<exists>hh. imm = ''0x'' @ hh
              \<and> hex_digits_of 4 (from_bytes_little (take 2 (drop sz data))) hh))
      \<and> (info_imm_size info \<noteq> 4 \<and> info_imm_size info \<noteq> 2 \<longrightarrow>
           decimal_of
             (from_bytes_little_signed (take (info_imm_size info) (drop sz data))) imm)"
proof -
  from lookup_record_I [OF assms(2,3)] obtain sz where
    nm: "\<not> info_has_modrm info" and sz: "opcode_size = Some sz"
    by blast
  let ?bs = "take (info_imm_size info) (drop sz data)"
  let ?imm = "if info_imm_size info = 4 then ''0x'' @ format_0X 8 (int (from_bytes_little ?bs))
              else if info_imm_size info = 2
                then ''0x'' @ format_0X 4 (int (from_bytes_little ?bs))
              else str_int (from_bytes_little_signed ?bs)"
  let ?tok = "Instruction_init
      \<lparr> mnemonic := info_mnemonic info, encoding := Some Enc_I, immediate := PStr ?imm \<rparr>"
  from assms(3) have "no_modrm_no_regadd_disassemble (drop sz data) sz info offset
      = (?tok, sz + info_imm_size info)"
    by (simp add: no_modrm_no_regadd_disassemble_def Let_def)
  with assms nm sz have dis: "disassemble data offset = Inr (?tok, sz + info_imm_size info)"
    by (simp add: disassemble_no_modrm)
  have imm: "immediate ?tok = PStr ?imm"
    by (simp add: Instruction_init_def)
  have str: "Instruction_str ?tok = Inr (str_opt (info_mnemonic info) @ '' '' @ ?imm)"
    by (simp add: Instruction_str_def Instruction_init_def str_val_def)
  have four: "\<exists>hh. ?imm = ''0x'' @ hh
      \<and> hex_digits_of 8 (from_bytes_little (take 4 (drop sz data))) hh"
    if "info_imm_size info = 4"
  proof -
    have "length (take 4 (drop sz data)) \<le> 4" by simp
    then have "hex_digits_of 8 (from_bytes_little (take 4 (drop sz data)))
        (format_0X 8 (int (from_bytes_little (take 4 (drop sz data)))))"
      by (rule dword_digits)
    with that show ?thesis by simp
  qed
  have two: "\<exists>hh. ?imm = ''0x'' @ hh
      \<and> hex_digits_of 4 (from_bytes_little (take 2 (drop sz data))) hh"
    if "info_imm_size info = 2"
  proof -
    let ?v = "from_bytes_little (take 2 (drop sz data))"
    have "?v < 256 ^ length (take 2 (drop sz data))" by (rule from_bytes_little_bound)
    also have "(256 :: nat) ^ length (take 2 (drop sz data)) \<le> 256 ^ 2"
      by (intro power_increasing) simp_all
    finally have "int ?v < 16 ^ 4" by simp
    then have "hex_digits_of 4 (nat (int ?v)) (format_0X 4 (int ?v))"
      by (intro format_0X_digits) simp_all
    with that show ?thesis by simp
  qed
  have other: "decimal_of (from_bytes_little_signed ?bs) ?imm"
    if "info_imm_size info \<noteq> 4 \<and> info_imm_size info \<noteq> 2"
    using that by (simp add: str_int_decimal)
  from sz dis imm str four two other show ?thesis by blast
qed


theorem immediate_only_rendering_witness:
  "lookup_record [0x6A, 0x05] (hd [0x6A, 0x05])
     = Inr (Some (Some 1, the (GLOBAL_INSTRUCTIONS_MAP 0x6A)))
   \<and> info_encoding (the (GLOBAL_INSTRUCTIONS_MAP 0x6A)) = Enc_I
   \<and> info_imm_size (the (GLOBAL_INSTRUCTIONS_MAP 0x6A)) = 1
   \<and> disassemble [0x6A, 0x05] 0
       = Inr (Instruction_init
                \<lparr> mnemonic := Some ''push'', encoding := Some Enc_I,
                  immediate := PStr ''5'' \<rparr>, 2)
   \<and> Instruction_str
        (Instruction_init
           \<lparr> mnemonic := Some ''push'', encoding := Some Enc_I, immediate := PStr ''5'' \<rparr>)
       = Inr ''push 5''
   \<and> decimal_of 5 ''5''
   \<and> lookup_record [0x68, 0x05, 0x00, 0x00, 0x00] (hd [0x68, 0x05, 0x00, 0x00, 0x00])
       = Inr (Some (Some 1, the (GLOBAL_INSTRUCTIONS_MAP 0x68)))
   \<and> info_encoding (the (GLOBAL_INSTRUCTIONS_MAP 0x68)) = Enc_I
   \<and> info_imm_size (the (GLOBAL_INSTRUCTIONS_MAP 0x68)) = 4
   \<and> disassemble [0x68, 0x05, 0x00, 0x00, 0x00] 0
       = Inr (Instruction_init
                \<lparr> mnemonic := Some ''push'', encoding := Some Enc_I,
                  immediate := PStr ''0x00000005'' \<rparr>, 5)
   \<and> Instruction_str
        (Instruction_init
           \<lparr> mnemonic := Some ''push'', encoding := Some Enc_I,
             immediate := PStr ''0x00000005'' \<rparr>)
       = Inr ''push 0x00000005''
   \<and> hex_digits_of 8 5 ''00000005''
   \<and> lookup_record [0xC2, 0x08, 0x00] (hd [0xC2, 0x08, 0x00])
       = Inr (Some (Some 1, the (GLOBAL_INSTRUCTIONS_MAP 0xC2)))
   \<and> info_encoding (the (GLOBAL_INSTRUCTIONS_MAP 0xC2)) = Enc_I
   \<and> info_imm_size (the (GLOBAL_INSTRUCTIONS_MAP 0xC2)) = 2
   \<and> disassemble [0xC2, 0x08, 0x00] 0
       = Inr (Instruction_init
                \<lparr> mnemonic := Some ''retn'', encoding := Some Enc_I,
                  immediate := PStr ''0x0008'' \<rparr>, 3)
   \<and> Instruction_str
        (Instruction_init
           \<lparr> mnemonic := Some ''retn'', encoding := Some Enc_I,
             immediate := PStr ''0x0008'' \<rparr>)
       = Inr ''retn 0x0008''
   \<and> hex_digits_of 4 8 ''0008''"
proof -
  let ?i1 = "the (GLOBAL_INSTRUCTIONS_MAP 0x6A)"
  let ?i2 = "the (GLOBAL_INSTRUCTIONS_MAP 0xC2)"
  let ?t2 = "Instruction_init
      \<lparr> mnemonic := Some ''retn'', encoding := Some Enc_I, immediate := PStr ''0x0008'' \<rparr>"
  let ?i4 = "the (GLOBAL_INSTRUCTIONS_MAP 0x68)"
  let ?t1 = "Instruction_init
      \<lparr> mnemonic := Some ''push'', encoding := Some Enc_I, immediate := PStr ''5'' \<rparr>"
  let ?t4 = "Instruction_init
      \<lparr> mnemonic := Some ''push'', encoding := Some Enc_I,
        immediate := PStr ''0x00000005'' \<rparr>"
  have ne1: "[0x6A, 0x05 :: byte] \<noteq> []" by simp
  have l1: "lookup_record [0x6A, 0x05] (hd [0x6A, 0x05]) = Inr (Some (Some 1, ?i1))"
    by (simp add: eval_defs)
  have e1: "info_encoding ?i1 = Enc_I" and w1: "info_imm_size ?i1 = 1"
    by (simp_all add: eval_defs)
  have d1: "disassemble [0x6A, 0x05] 0 = Inr (?t1, 2)"
    by (simp add: eval_defs)
  have s1: "Instruction_str ?t1 = Inr ''push 5''"
    by (simp add: eval_defs)
  have v1: "from_bytes_little_signed (take 1 (drop 1 [0x6A, 0x05])) = 5"
    by (simp add: from_bytes_little_signed_def)
  from immediate_only_rendering [OF ne1 l1 e1, of 0] d1 w1 v1
  have c1: "decimal_of 5 ''5''"
    by (auto simp: Instruction_init_def)
  have ne4: "[0x68, 0x05, 0x00, 0x00, 0x00 :: byte] \<noteq> []" by simp
  have l4: "lookup_record [0x68, 0x05, 0x00, 0x00, 0x00] (hd [0x68, 0x05, 0x00, 0x00, 0x00])
      = Inr (Some (Some 1, ?i4))"
    by (simp add: eval_defs)
  have e4: "info_encoding ?i4 = Enc_I" and w4: "info_imm_size ?i4 = 4"
    by (simp_all add: eval_defs)
  have d4: "disassemble [0x68, 0x05, 0x00, 0x00, 0x00] 0 = Inr (?t4, 5)"
    by (simp add: decode_defs, simp add: eval_defs)
  have s4: "Instruction_str ?t4 = Inr ''push 0x00000005''"
    by (simp add: eval_defs)
  have v4: "from_bytes_little (take 4 (drop 1 [0x68, 0x05, 0x00, 0x00, 0x00])) = 5"
    by simp
  from immediate_only_rendering [OF ne4 l4 e4, of 0] d4 w4 v4
  have c4: "hex_digits_of 8 5 ''00000005''"
    by (auto simp: Instruction_init_def)
  have ne2: "[0xC2, 0x08, 0x00 :: byte] \<noteq> []" by simp
  have l2: "lookup_record [0xC2, 0x08, 0x00] (hd [0xC2, 0x08, 0x00])
      = Inr (Some (Some 1, ?i2))"
    by (simp add: eval_defs)
  have e2: "info_encoding ?i2 = Enc_I" and w2: "info_imm_size ?i2 = 2"
    by (simp_all add: eval_defs)
  have d2: "disassemble [0xC2, 0x08, 0x00] 0 = Inr (?t2, 3)"
    by (simp add: decode_defs, simp add: eval_defs)
  have s2: "Instruction_str ?t2 = Inr ''retn 0x0008''"
    by (simp add: eval_defs)
  have v2: "from_bytes_little (take 2 (drop 1 [0xC2, 0x08, 0x00])) = 8"
    by simp
  from immediate_only_rendering [OF ne2 l2 e2, of 0] d2 w2 v2
  have c2: "hex_digits_of 4 8 ''0008''"
    by (auto simp: Instruction_init_def)
  from l1 e1 w1 d1 s1 c1 l4 e4 w4 d4 s4 c4 l2 e2 w2 d2 s2 c2 show ?thesis by blast
qed


section \<open>Truncated buffers\<close>

lemma slice_truncated:
  assumes "length data \<le> b"
  shows "slice a b data = drop a data"
  using assms by (simp add: slice_def)

lemma slice_past_end:
  assumes "length data \<le> a"
  shows "slice a b data = []"
  using assms by (simp add: slice_def)

lemma modrm_disassemble_empty: "modrm_disassemble [] opcode_size info = Inl IndexError"
  by (simp add: modrm_disassemble_def byte_at_Inl bind_e_def)

text \<open>
  C10. On a nonempty buffer \<open>disassemble\<close> returns a token and a size whatever
  the number of bytes that remain. A slice that reaches past the end of the buffer is
  the rest of the buffer, so a little-endian value read from it is the value of the
  bytes that remain, and zero when none remain; for a relative-displacement token the
  stored value is computed from the signed value of all the bytes after the opcode
  when fewer than the declared width remain. A selected addressing-byte record with no
  byte after the opcode ends as the one-byte placeholder. A selected record without
  addressing byte that takes an immediate reports the opcode size plus the declared
  width, however short the buffer: the byte \<open>0xE8\<close> alone is a step of size 5.
\<close>

theorem truncated_decode:
  "(data \<noteq> [] \<longrightarrow> (\<exists>tok n. disassemble data offset = Inr (tok, n)))
   \<and> (\<forall>a b. length data \<le> b \<longrightarrow>
         from_bytes_little (slice a b data) = from_bytes_little (drop a data)
         \<and> from_bytes_little_signed (slice a b data) = from_bytes_little_signed (drop a data))
   \<and> (\<forall>a b. length data \<le> a \<longrightarrow>
         from_bytes_little (slice a b data) = 0
         \<and> from_bytes_little_signed (slice a b data) = 0)
   \<and> (\<forall>tok n sz info.
         disassemble data offset = Inr (tok, n) \<and> encoding tok = Some Enc_D
         \<and> lookup_record data (hd data) = Inr (Some (Some sz, info))
         \<and> length data \<le> sz + info_imm_size info
         \<longrightarrow> immediate tok
               = PInt (from_bytes_little_signed (drop sz data) + (offset + int n)))
   \<and> (\<forall>sz info.
         data \<noteq> [] \<and> lookup_record data (hd data) = Inr (Some (Some sz, info))
         \<and> info_has_modrm info \<and> length data \<le> sz
         \<longrightarrow> disassemble data offset = Inr (db_token (hd data), 1))
   \<and> (\<forall>sz info.
         data \<noteq> [] \<and> lookup_record data (hd data) = Inr (Some (Some sz, info))
         \<and> \<not> info_has_modrm info \<and> info_encoding info \<noteq> Enc_O
         \<and> info_encoding info \<noteq> Enc_OI \<and> info_encoding info \<noteq> Enc_ZO
         \<longrightarrow> (\<exists>tok. disassemble data offset = Inr (tok, sz + info_imm_size info)))
   \<and> (\<exists>tok. disassemble [0xE8] 0 = Inr (tok, 5)) \<and> length [0xE8 :: byte] < 5"
proof (intro conjI allI impI)
  assume "data \<noteq> []"
  then show "\<exists>tok n. disassemble data offset = Inr (tok, n)"
    using disassemble_total [of data offset] by blast
next
  fix a b
  assume "length data \<le> b"
  then show "from_bytes_little (slice a b data) = from_bytes_little (drop a data)"
    and "from_bytes_little_signed (slice a b data) = from_bytes_little_signed (drop a data)"
    by (simp_all add: slice_truncated)
next
  fix a b
  assume "length data \<le> a"
  then show "from_bytes_little (slice a b data) = 0"
    and "from_bytes_little_signed (slice a b data) = 0"
    by (simp_all add: slice_past_end from_bytes_little_signed_def)
next
  fix tok n sz info
  assume h: "disassemble data offset = Inr (tok, n) \<and> encoding tok = Some Enc_D
      \<and> lookup_record data (hd data) = Inr (Some (Some sz, info))
      \<and> length data \<le> sz + info_imm_size info"
  then have "disassemble data offset = Inr (tok, n)" and "encoding tok = Some Enc_D"
    by simp_all
  from disassemble_D [OF this] h
  have "tok = Instruction_init
          \<lparr> mnemonic := info_mnemonic info, encoding := Some Enc_D,
            immediate :=
              PInt (from_bytes_little_signed (take (info_imm_size info) (drop sz data))
                    + (offset + int n)) \<rparr>"
    by auto
  moreover from h have "length data \<le> sz + info_imm_size info" by simp
  then have "take (info_imm_size info) (drop sz data) = drop sz data"
    by simp
  ultimately show "immediate tok
      = PInt (from_bytes_little_signed (drop sz data) + (offset + int n))"
    by (simp add: Instruction_init_def)
next
  fix sz info
  assume h: "data \<noteq> [] \<and> lookup_record data (hd data) = Inr (Some (Some sz, info))
      \<and> info_has_modrm info \<and> length data \<le> sz"
  then have "decode_body data offset (Some sz) info = Inl IndexError"
    by (simp add: decode_body_def modrm_disassemble_empty)
  with h show "disassemble data offset = Inr (db_token (hd data), 1)"
    by (blast intro: disassemble_fault)
next
  fix sz info
  assume h: "data \<noteq> [] \<and> lookup_record data (hd data) = Inr (Some (Some sz, info))
      \<and> \<not> info_has_modrm info \<and> info_encoding info \<noteq> Enc_O
      \<and> info_encoding info \<noteq> Enc_OI \<and> info_encoding info \<noteq> Enc_ZO"
  then have "disassemble data offset
      = Inr (no_modrm_no_regadd_disassemble (drop sz data) sz info offset)"
    by (simp add: disassemble_no_modrm)
  moreover from h have "snd (no_modrm_no_regadd_disassemble (drop sz data) sz info offset)
      = sz + info_imm_size info"
    by (simp add: no_modrm_no_regadd_disassemble_def Let_def)
  ultimately show "\<exists>tok. disassemble data offset = Inr (tok, sz + info_imm_size info)"
    by (metis prod.collapse)
next
  show "\<exists>tok. disassemble [0xE8] 0 = Inr (tok, 5)"
    by (simp add: eval_defs)
next
  show "length [0xE8 :: byte] < 5" by simp
qed

theorem truncated_decode_witness:
  "disassemble [0xE8, 0xFF] 0
     = Inr (Instruction_init
              \<lparr> mnemonic := Some ''call'', encoding := Some Enc_D, immediate := PInt 4 \<rparr>, 5)
   \<and> lookup_record [0xE8, 0xFF] (hd [0xE8, 0xFF])
       = Inr (Some (Some 1, the (GLOBAL_INSTRUCTIONS_MAP 0xE8)))
   \<and> length [0xE8, 0xFF :: byte] \<le> 1 + info_imm_size (the (GLOBAL_INSTRUCTIONS_MAP 0xE8))
   \<and> from_bytes_little_signed (drop 1 [0xE8, 0xFF]) = - 1
   \<and> from_bytes_little (slice 1 5 [0xE8, 0xFF]) = 255
   \<and> from_bytes_little (slice 2 6 [0xE8, 0xFF]) = 0
   \<and> lookup_record [0x89] (hd [0x89]) = Inr (Some (Some 1, the (GLOBAL_INSTRUCTIONS_MAP 0x89)))
   \<and> info_has_modrm (the (GLOBAL_INSTRUCTIONS_MAP 0x89))
   \<and> disassemble [0x89] 0 = Inr (db_token 0x89, 1)"
proof -
  let ?call = "the (GLOBAL_INSTRUCTIONS_MAP 0xE8)"
  let ?mov = "the (GLOBAL_INSTRUCTIONS_MAP 0x89)"
  let ?tok = "Instruction_init
      \<lparr> mnemonic := Some ''call'', encoding := Some Enc_D, immediate := PInt 4 \<rparr>"
  have d: "disassemble [0xE8, 0xFF] 0 = Inr (?tok, 5)"
    by (simp add: eval_defs)
  have e: "encoding ?tok = Some Enc_D"
    by (simp add: Instruction_init_def)
  have l: "lookup_record [0xE8, 0xFF] (hd [0xE8, 0xFF]) = Inr (Some (Some 1, ?call))"
    by (simp add: eval_defs)
  have w: "length [0xE8, 0xFF :: byte] \<le> 1 + info_imm_size ?call"
    by (simp add: eval_defs)
  have v: "from_bytes_little_signed (drop 1 [0xE8, 0xFF]) = - 1"
    by (simp add: from_bytes_little_signed_def)
  have lm: "lookup_record [0x89] (hd [0x89]) = Inr (Some (Some 1, ?mov))"
    and hm: "info_has_modrm ?mov"
    by (simp_all add: eval_defs)
  have ne: "[0x89 :: byte] \<noteq> []" and short: "length [0x89 :: byte] \<le> 1"
    by simp_all
  from truncated_decode [of "[0xE8, 0xFF]" 0] d e l w
  have "immediate ?tok = PInt (from_bytes_little_signed (drop 1 [0xE8, 0xFF]) + (0 + int 5))"
    by blast
  moreover from truncated_decode [of "[0xE8, 0xFF]" 0]
  have "from_bytes_little (slice 1 5 [0xE8, 0xFF]) = from_bytes_little (drop 1 [0xE8, 0xFF])"
    and "from_bytes_little (slice 2 6 [0xE8, 0xFF]) = 0"
    by simp_all
  moreover from truncated_decode [of "[0x89]" 0] ne lm hm short
  have "disassemble [0x89] 0 = Inr (db_token (hd [0x89]), 1)"
    by blast
  ultimately show ?thesis using d l w v lm hm by simp
qed

end
